theory Spec2Isabelle
  imports Complex_Main "HOL-Library.Char_ord" "HOL-Library.List_Lexorder"
begin

section \<open>Python values shared by the agents\<close>

text \<open>
  An exception is its class name (\<^verbatim>\<open>type(error).__name__\<close>) and its text
  (\<^verbatim>\<open>str(error)\<close>). Only subclasses of \<^verbatim>\<open>Exception\<close> are modelled: every handler of
  the repository is \<^verbatim>\<open>except Exception\<close>.
\<close>

datatype exn = Exn (exn_type: string) (exn_msg: string)

text \<open>
  \<^verbatim>\<open>str.lower()\<close> on ASCII text: the letters A..Z move to a..z, every other character
  stays. Strings are lists of 8-bit characters. The classifier and the topic selector use it
  on error messages and titles; the coverage checks, which read article text in any script,
  take \<^verbatim>\<open>str.lower\<close> as a parameter instead.
\<close>

definition lower_char :: "char \<Rightarrow> char" where
  "lower_char c =
     (case map_of (zip ''ABCDEFGHIJKLMNOPQRSTUVWXYZ'' ''abcdefghijklmnopqrstuvwxyz'') c of
        None \<Rightarrow> c
      | Some l \<Rightarrow> l)"

definition lower :: "string \<Rightarrow> string" where
  "lower s = map lower_char s"

text \<open>\<^verbatim>\<open>pattern in text\<close>: the pattern occurs as a contiguous run of the text.\<close>

fun starts_with :: "string \<Rightarrow> string \<Rightarrow> bool" where
  "starts_with [] s = True"
| "starts_with (p # ps) [] = False"
| "starts_with (p # ps) (c # cs) = (p = c \<and> starts_with ps cs)"

fun contains :: "string \<Rightarrow> string \<Rightarrow> bool" where
  "contains pat [] = (pat = [])"
| "contains pat (c # cs) = (starts_with pat (c # cs) \<or> contains pat cs)"

section \<open>Quality gate: \<^verbatim>\<open>ContentCheckerAgent\<close>\<close>

text \<open>
  One check result is a Python dict: the \<^verbatim>\<open>passed\<close> flag, the rates and counts of the two
  coverage checks (\<open>items_found\<close>, \<open>items_total\<close> and \<open>missing\<close> stand for
  \<^verbatim>\<open>verified_facts\<close>/\<^verbatim>\<open>items_present\<close>, \<^verbatim>\<open>total_facts\<close>/\<^verbatim>\<open>items_total\<close> and
  \<^verbatim>\<open>missing_facts\<close>/\<^verbatim>\<open>missing_items\<close>), the two SEO statuses that the feedback reads, and the
  \<^verbatim>\<open>error\<close> text of a check that caught an error. \<open>None\<close> is an absent key.
\<close>

record check_result =
  passed :: "bool option"
  accuracy_rate :: "rat option"
  coverage :: "rat option"
  items_found :: "nat option"
  items_total :: "nat option"
  missing :: "string list"
  keyword_density_status :: "string option"
  meta_title_status :: "string option"
  check_error :: "string option"

type_synonym checks = "string \<rightharpoonup> check_result"

text \<open>\<^verbatim>\<open>checks.get(check_name, {}).get("passed", False)\<close>\<close>

definition get_passed :: "checks \<Rightarrow> string \<Rightarrow> bool" where
  "get_passed cs check_name =
     (case cs check_name of
        None \<Rightarrow> False
      | Some check_result \<Rightarrow> (case passed check_result of None \<Rightarrow> False | Some b \<Rightarrow> b))"

text \<open>
  The weights dict, in its insertion order. \<^verbatim>\<open>Decimal(str(weight))\<close> is the exact decimal
  that is written in the source, so the score is a rational number.
\<close>

definition weights :: "(string \<times> rat) list" where
  "weights =
     [(''factual_accuracy'', 25 / 100),
      (''seo_compliance'', 25 / 100),
      (''research_alignment'', 20 / 100),
      (''uniqueness'', 15 / 100),
      (''quality'', 15 / 100)]"

fun score_loop :: "checks \<Rightarrow> (string \<times> rat) list \<Rightarrow> rat \<Rightarrow> rat" where
  "score_loop cs [] score = score"
| "score_loop cs ((check_name, weight) # rest) score =
     (if get_passed cs check_name
      then score_loop cs rest (score + weight)
      else score_loop cs rest score)"

text \<open>
  \<^verbatim>\<open>_calculate_quality_score\<close>. Its handler (which returns 0.7) guards a loop of
  \<^verbatim>\<open>dict.get\<close> calls that do not raise on dicts, so the body is the whole function.
\<close>

definition calculate_quality_score :: "checks \<Rightarrow> rat" where
  "calculate_quality_score cs = score_loop cs weights 0"

text \<open>\<^verbatim>\<open>checks[name]["passed"]\<close>: a missing key raises \<^verbatim>\<open>KeyError\<close>.\<close>

definition key_error :: "string \<Rightarrow> exn" where
  "key_error k = Exn ''KeyError'' ([CHR 0x27] @ k @ [CHR 0x27])"

definition bind_exn :: "exn + 'a \<Rightarrow> ('a \<Rightarrow> exn + 'b) \<Rightarrow> exn + 'b" where
  "bind_exn r f = (case r of Inl e \<Rightarrow> Inl e | Inr v \<Rightarrow> f v)"

definition index_check :: "checks \<Rightarrow> string \<Rightarrow> exn + check_result" where
  "index_check cs check_name =
     (case cs check_name of None \<Rightarrow> Inl (key_error check_name) | Some r \<Rightarrow> Inr r)"

definition index_passed :: "check_result \<Rightarrow> exn + bool" where
  "index_passed r = (case passed r of None \<Rightarrow> Inl (key_error ''passed'') | Some b \<Rightarrow> Inr b)"

datatype feedback =
  Feedback (fb_decision: string) (strengths: "string list") (weaknesses: "string list")
    (revisions: "string list")
| FeedbackError (fb_decision: string) (fb_error: string)

text \<open>The feedback lists that \<^verbatim>\<open>_make_decision\<close> collects before it decides.\<close>

definition factual_feedback :: "check_result \<Rightarrow> bool \<Rightarrow> string list \<times> string list \<times> string list" where
  "factual_feedback fa fa_passed =
     (if (case accuracy_rate fa of None \<Rightarrow> 0 | Some r \<Rightarrow> r) \<ge> 9 / 10
      then ([''Excellent factual accuracy''], [], [])
      else if \<not> fa_passed
      then ([], [''Some key facts missing''], [''Add missing facts from research''])
      else ([], [], []))"

definition seo_feedback :: "check_result \<Rightarrow> bool \<Rightarrow> string list \<times> string list \<times> string list" where
  "seo_feedback seo seo_passed =
     (if seo_passed then ([''Strong SEO compliance''], [], [])
      else ([], [''SEO needs optimization''],
            (if keyword_density_status seo = Some ''needs_adjustment''
             then [''Adjust keyword density''] else []) @
            (if meta_title_status seo \<noteq> Some ''good''
             then [''Optimize meta title length''] else [])))"

definition uniqueness_feedback :: "bool \<Rightarrow> string list \<times> string list \<times> string list" where
  "uniqueness_feedback un_passed =
     (if un_passed then ([''Unique content angle''], [], [])
      else ([], [''Too similar to recent articles''], [''Differentiate from recent content'']))"

definition decide ::
  "bool list \<Rightarrow> bool \<Rightarrow> bool \<Rightarrow> string list \<Rightarrow> string list \<Rightarrow> string list \<Rightarrow> string \<times> feedback" where
  "decide critical_checks seo_passed quality_passed strs weaks revs =
     (if \<not> list_all (\<lambda>b. b) critical_checks
      then (''REJECTED'', Feedback ''Article rejected due to critical issues'' strs weaks revs)
      else if \<not> seo_passed \<or> \<not> quality_passed
      then (''NEEDS_REVISION'', Feedback ''Article needs minor revisions'' strs weaks revs)
      else (''APPROVED'',
            Feedback ''Article approved for publication'' strs
              (if weaks \<noteq> [] then weaks else [''None identified'']) []))"

text \<open>The body of the \<^verbatim>\<open>try\<close> of \<^verbatim>\<open>_make_decision\<close>, in the order of its reads.\<close>

definition make_decision_body :: "checks \<Rightarrow> rat \<Rightarrow> exn + (string \<times> feedback)" where
  "make_decision_body cs quality_score =
     bind_exn (index_check cs ''factual_accuracy'') (\<lambda>fa.
     bind_exn (index_passed fa) (\<lambda>fa_passed.
     bind_exn (index_check cs ''research_alignment'') (\<lambda>ra.
     bind_exn (index_passed ra) (\<lambda>ra_passed.
     bind_exn (index_check cs ''uniqueness'') (\<lambda>un.
     bind_exn (index_passed un) (\<lambda>un_passed.
     bind_exn (index_check cs ''seo_compliance'') (\<lambda>seo.
     bind_exn (index_passed seo) (\<lambda>seo_passed.
     bind_exn (index_check cs ''quality'') (\<lambda>qu.
     bind_exn (index_passed qu) (\<lambda>quality_passed.
       (let (s1, w1, r1) = factual_feedback fa fa_passed;
            (s2, w2, r2) = seo_feedback seo seo_passed;
            (s3, w3, r3) = uniqueness_feedback un_passed;
            s4 = (if quality_score \<ge> 9 / 10 then [''High overall quality''] else [])
        in Inr (decide [fa_passed, ra_passed, un_passed] seo_passed quality_passed
                  (s1 @ s2 @ s3 @ s4) (w1 @ w2 @ w3) (r1 @ r2 @ r3)))))))))))))"

text \<open>\<^verbatim>\<open>_make_decision\<close>: any error inside yields NEEDS_REVISION with an error feedback.\<close>

definition make_decision :: "checks \<Rightarrow> rat \<Rightarrow> string \<times> feedback" where
  "make_decision cs quality_score =
     (case make_decision_body cs quality_score of
        Inl e \<Rightarrow> (''NEEDS_REVISION'', FeedbackError ''Error in validation'' (exn_msg e))
      | Inr r \<Rightarrow> r)"

section \<open>Coverage checks of the quality gate\<close>

text \<open>
  The article and the research report are JSON written by the language model and are not
  validated. Where the checks expect a string there may be any JSON value: \<open>JStr\<close> is a
  string, \<open>JOther\<close> any other value with its truth value (a number, a list, an object,
  \<^verbatim>\<open>true\<close>, \<^verbatim>\<open>null\<close>).
\<close>

datatype jvalue = JStr string | JOther bool

fun truthy :: "jvalue \<Rightarrow> bool" where
  "truthy (JStr s) = (s \<noteq> [])"
| "truthy (JOther b) = b"

text \<open>
  An article body is a list of Portable Text blocks. A block is a dict with a \<^verbatim>\<open>_type\<close>
  (\<open>None\<close> when it is absent or not a string) and its children, or something that is not a
  dict; a child is a dict with its \<^verbatim>\<open>text\<close> (\<open>None\<close> when absent), or something that is not a
  dict. A body or a list of children that cannot be iterated behaves as one whose first
  element is not a dict. An absent \<^verbatim>\<open>portable_text_body\<close> is the empty list, as are an absent
  \<^verbatim>\<open>key_facts\<close> and an absent \<^verbatim>\<open>must_include\<close>
  (\<^verbatim>\<open>research_report.get("research_synthesis", {}).get("key_facts", [])\<close>); a list of facts or
  items that cannot be iterated behaves as one whose first element is not a string. The texts
  of the exceptions are shortened: Python adds the position and the type of the value.
\<close>

datatype child = Child "jvalue option" | BadChild

datatype block = Block "string option" "child list" | BadBlock

record article =
  article_title :: "string option"
  portable_text_body :: "block list"

record research_report =
  key_facts :: "jvalue list"
  must_include :: "jvalue list"

text \<open>
  The loops of \<^verbatim>\<open>_extract_text_from_portable_text\<close>. They run inside a \<^verbatim>\<open>try\<close>: at the first
  block or child that is not a dict the error is caught and both loops are left with the
  texts collected so far. The flag says whether that happened.
\<close>

fun children_texts :: "child list \<Rightarrow> jvalue list \<Rightarrow> bool \<times> jvalue list" where
  "children_texts [] text_parts = (False, text_parts)"
| "children_texts (BadChild # rest) text_parts = (True, text_parts)"
| "children_texts (Child t # rest) text_parts =
     (let text = (case t of None \<Rightarrow> JStr [] | Some v \<Rightarrow> v)
      in children_texts rest (if truthy text then text_parts @ [text] else text_parts))"

fun blocks_texts :: "block list \<Rightarrow> jvalue list \<Rightarrow> jvalue list" where
  "blocks_texts [] text_parts = text_parts"
| "blocks_texts (BadBlock # rest) text_parts = text_parts"
| "blocks_texts (Block ty cs # rest) text_parts =
     (if ty = Some ''block''
      then (case children_texts cs text_parts of
              (True, text_parts') \<Rightarrow> text_parts'
            | (False, text_parts') \<Rightarrow> blocks_texts rest text_parts')
      else blocks_texts rest text_parts)"

text \<open>\<^verbatim>\<open>" ".join(parts)\<close> on strings.\<close>

fun join_space :: "string list \<Rightarrow> string" where
  "join_space [] = []"
| "join_space [x] = x"
| "join_space (x # y # rest) = x @ '' '' @ join_space (y # rest)"

fun the_strings :: "jvalue list \<Rightarrow> string list option" where
  "the_strings [] = Some []"
| "the_strings (JStr s # rest) = map_option ((#) s) (the_strings rest)"
| "the_strings (JOther b # rest) = None"

text \<open>
  The \<^verbatim>\<open>join\<close> that ends the extraction stands outside the \<^verbatim>\<open>try\<close>: it raises TypeError when
  a collected text is not a string.
\<close>

definition extract_text_from_portable_text :: "block list \<Rightarrow> exn + string" where
  "extract_text_from_portable_text portable_text =
     (case the_strings (blocks_texts portable_text []) of
        None \<Rightarrow> Inl (Exn ''TypeError'' ''sequence item: expected str instance'')
      | Some parts \<Rightarrow> Inr (join_space parts))"

text \<open>
  \<^verbatim>\<open>str.lower\<close> and \<^verbatim>\<open>str.split\<close> are Python's, over all of Unicode; the checks take them as
  given. On ASCII text they are \<open>lower\<close> above and \<open>split\<close> below, where the whitespace
  characters are the codes 9 to 13, 28 to 31 and 32.
\<close>

record str_ops =
  str_lower :: "string \<Rightarrow> string"
  str_split :: "string \<Rightarrow> string list"

definition is_space :: "char \<Rightarrow> bool" where
  "is_space c \<longleftrightarrow> (of_char c :: nat) \<in> {9, 10, 11, 12, 13, 28, 29, 30, 31, 32}"

fun split_from :: "string \<Rightarrow> string \<Rightarrow> string list" where
  "split_from word [] = (if word = [] then [] else [word])"
| "split_from word (c # cs) =
     (if is_space c
      then (if word = [] then split_from [] cs else word # split_from [] cs)
      else split_from (word @ [c]) cs)"

definition split :: "string \<Rightarrow> string list" where
  "split s = split_from [] s"

definition ascii_ops :: str_ops where
  "ascii_ops = \<lparr>str_lower = lower, str_split = split\<rparr>"

text \<open>
  An item is found when any of its first \<open>n\<close> lowered words occurs in the lowered text:
  \<^verbatim>\<open>any(keyword in article_text.lower() for keyword in item.lower().split()[:n])\<close>.
\<close>

definition mentioned :: "str_ops \<Rightarrow> nat \<Rightarrow> string \<Rightarrow> string \<Rightarrow> bool" where
  "mentioned ops n article_text item =
     list_ex (\<lambda>keyword. contains keyword (str_lower ops article_text))
       (take n (str_split ops (str_lower ops item)))"

text \<open>
  The counting loop of both checks: the number found and the items missing, in order. An
  item that is not a string has no \<^verbatim>\<open>lower\<close>: AttributeError.
\<close>

fun coverage_loop ::
  "str_ops \<Rightarrow> nat \<Rightarrow> string \<Rightarrow> jvalue list \<Rightarrow> nat \<Rightarrow> string list \<Rightarrow> exn + (nat \<times> string list)" where
  "coverage_loop ops n article_text [] found missing_items = Inr (found, missing_items)"
| "coverage_loop ops n article_text (JOther b # rest) found missing_items =
     Inl (Exn ''AttributeError'' ''object has no attribute lower'')"
| "coverage_loop ops n article_text (JStr item # rest) found missing_items =
     (if mentioned ops n article_text item
      then coverage_loop ops n article_text rest (found + 1) missing_items
      else coverage_loop ops n article_text rest found (missing_items @ [item]))"

text \<open>
  The handler of each check: \<^verbatim>\<open>return {"passed": True, "error": str(e)}\<close>, so that an error
  inside a check does not fail the article.
\<close>

definition passed_on_error :: "exn \<Rightarrow> check_result" where
  "passed_on_error e =
     \<lparr>passed = Some True, accuracy_rate = None, coverage = None, items_found = None,
      items_total = None, missing = [], keyword_density_status = None,
      meta_title_status = None, check_error = Some (exn_msg e)\<rparr>"

text \<open>
  \<^verbatim>\<open>_check_factual_accuracy\<close>: the first three words of each key fact, pass at a rate of 0.7.
  The rate is \<^verbatim>\<open>facts_found / max(len(key_facts), 1)\<close>, a Python float; it is carried as the
  exact quotient.
\<close>

definition check_factual_accuracy :: "str_ops \<Rightarrow> article \<Rightarrow> research_report \<Rightarrow> check_result" where
  "check_factual_accuracy ops art report =
     (case bind_exn (extract_text_from_portable_text (portable_text_body art)) (\<lambda>article_text.
           bind_exn (coverage_loop ops 3 article_text (key_facts report) 0 [])
             (\<lambda>(facts_found, missing_facts).
                let rate = of_nat facts_found / of_nat (max (length (key_facts report)) 1)
                in Inr \<lparr>passed = Some (rate \<ge> 7 / 10),
                        accuracy_rate = Some rate,
                        coverage = None,
                        items_found = Some facts_found,
                        items_total = Some (length (key_facts report)),
                        missing = take 3 missing_facts,
                        keyword_density_status = None,
                        meta_title_status = None,
                        check_error = None\<rparr>)) of
        Inr result \<Rightarrow> result
      | Inl e \<Rightarrow> passed_on_error e)"

text \<open>
  \<^verbatim>\<open>_check_research_alignment\<close>: the first two words of each must-include item, pass at a
  coverage of 0.8.
\<close>

definition check_research_alignment :: "str_ops \<Rightarrow> article \<Rightarrow> research_report \<Rightarrow> check_result" where
  "check_research_alignment ops art report =
     (case bind_exn (extract_text_from_portable_text (portable_text_body art)) (\<lambda>article_text.
           bind_exn (coverage_loop ops 2 article_text (must_include report) 0 [])
             (\<lambda>(items_present, missing_items).
                let cov = of_nat items_present / of_nat (max (length (must_include report)) 1)
                in Inr \<lparr>passed = Some (cov \<ge> 8 / 10),
                        accuracy_rate = None,
                        coverage = Some cov,
                        items_found = Some items_present,
                        items_total = Some (length (must_include report)),
                        missing = take 3 missing_items,
                        keyword_density_status = None,
                        meta_title_status = None,
                        check_error = None\<rparr>)) of
        Inr result \<Rightarrow> result
      | Inl e \<Rightarrow> passed_on_error e)"

text \<open>
  The part of \<^verbatim>\<open>execute\<close> from the checks dict to the verdict. The two coverage checks are
  computed; the results of the SEO, uniqueness and quality checks are taken as given.
\<close>

record validation_result =
  validation_status :: string
  quality_score :: rat
  validation_checks :: checks
  validation_feedback :: feedback

definition validate ::
  "str_ops \<Rightarrow> article \<Rightarrow> research_report \<Rightarrow> check_result \<Rightarrow> check_result \<Rightarrow> check_result
     \<Rightarrow> validation_result" where
  "validate ops art report seo_compliance uniqueness quality =
     (let cs = [''factual_accuracy'' \<mapsto> check_factual_accuracy ops art report,
                ''seo_compliance'' \<mapsto> seo_compliance,
                ''research_alignment'' \<mapsto> check_research_alignment ops art report,
                ''uniqueness'' \<mapsto> uniqueness,
                ''quality'' \<mapsto> quality];
          score = calculate_quality_score cs;
          (status, fb) = make_decision cs score
      in \<lparr>validation_status = status, quality_score = score, validation_checks = cs,
          validation_feedback = fb\<rparr>)"

section \<open>Retry executor: \<^verbatim>\<open>BaseAgent.retry_with_backoff\<close>\<close>

text \<open>
  What the executor does to the outside is kept as a trace: each invocation of the
  operation, each \<^verbatim>\<open>time.sleep\<close> that was carried out with its delay, each log line (level
  and the fixed part of its message). \<open>calls\<close> counts the invocations, \<open>draws\<close> the calls
  of \<^verbatim>\<open>random.uniform\<close>.
\<close>

datatype event = Invoked nat | Slept rat | Logged string string

record world =
  calls :: nat
  draws :: nat
  trace :: "event list"

definition fresh_world :: world where
  "fresh_world = \<lparr>calls = 0, draws = 0, trace = []\<rparr>"

text \<open>
  The operation is a Python callable with effects of its own; it is given by the outcome of
  each of its invocations, counted from 0: \<open>Inl\<close> the exception raised, \<open>Inr\<close> the value
  returned.
\<close>

type_synonym 'a operation = "nat \<Rightarrow> exn + 'a"

definition invoke :: "'a operation \<Rightarrow> world \<Rightarrow> (exn + 'a) \<times> world" where
  "invoke operation w =
     (operation (calls w), w\<lparr>calls := calls w + 1, trace := trace w @ [Invoked (calls w)]\<rparr>)"

definition log_event :: "string \<Rightarrow> string \<Rightarrow> world \<Rightarrow> world" where
  "log_event level message w = w\<lparr>trace := trace w @ [Logged level message]\<rparr>"

text \<open>
  The delays are Python floats. A float is a finite value, an infinity or a NaN. The
  finite values are carried exactly, as rationals: rounding and underflow are not modelled,
  the range is. A sum or a product whose value leaves the range of a double becomes an
  infinity, as in Python; the bound is where a double rounds to infinity.
\<close>

datatype pyfloat = Fin rat | PInf | NInf | NaN

definition overflow_bound :: rat where
  "overflow_bound = 2 ^ 1024 - 2 ^ 970"

definition rounded :: "rat \<Rightarrow> pyfloat" where
  "rounded x =
     (if overflow_bound \<le> x then PInf else if x \<le> - overflow_bound then NInf else Fin x)"

fun fl_neg :: "pyfloat \<Rightarrow> pyfloat" where
  "fl_neg (Fin x) = Fin (- x)"
| "fl_neg PInf = NInf"
| "fl_neg NInf = PInf"
| "fl_neg NaN = NaN"

fun fl_add :: "pyfloat \<Rightarrow> pyfloat \<Rightarrow> pyfloat" where
  "fl_add (Fin x) (Fin y) = rounded (x + y)"
| "fl_add NaN b = NaN"
| "fl_add a NaN = NaN"
| "fl_add PInf NInf = NaN"
| "fl_add NInf PInf = NaN"
| "fl_add PInf b = PInf"
| "fl_add a PInf = PInf"
| "fl_add NInf b = NInf"
| "fl_add a NInf = NInf"

definition signed_inf :: "bool \<Rightarrow> pyfloat" where
  "signed_inf positive = (if positive then PInf else NInf)"

fun fl_mul :: "pyfloat \<Rightarrow> pyfloat \<Rightarrow> pyfloat" where
  "fl_mul (Fin x) (Fin y) = rounded (x * y)"
| "fl_mul NaN b = NaN"
| "fl_mul a NaN = NaN"
| "fl_mul (Fin x) PInf = (if x = 0 then NaN else signed_inf (0 < x))"
| "fl_mul (Fin x) NInf = (if x = 0 then NaN else signed_inf (x < 0))"
| "fl_mul PInf (Fin y) = (if y = 0 then NaN else signed_inf (0 < y))"
| "fl_mul NInf (Fin y) = (if y = 0 then NaN else signed_inf (y < 0))"
| "fl_mul PInf PInf = PInf"
| "fl_mul PInf NInf = NInf"
| "fl_mul NInf PInf = NInf"
| "fl_mul NInf NInf = PInf"

text \<open>\<^verbatim>\<open>a < b\<close> on floats: every comparison with a NaN is false.\<close>

fun fl_less :: "pyfloat \<Rightarrow> pyfloat \<Rightarrow> bool" where
  "fl_less (Fin x) (Fin y) = (x < y)"
| "fl_less NaN b = False"
| "fl_less a NaN = False"
| "fl_less a NInf = False"
| "fl_less NInf b = True"
| "fl_less PInf b = False"
| "fl_less a PInf = True"

text \<open>\<^verbatim>\<open>min(a, b)\<close> keeps its first argument unless the second is smaller.\<close>

definition fl_min :: "pyfloat \<Rightarrow> pyfloat \<Rightarrow> pyfloat" where
  "fl_min a b = (if fl_less b a then b else a)"

text \<open>
  \<^verbatim>\<open>base ** attempt\<close> with a float base and a non-negative int exponent: unlike a product,
  a power that leaves the range raises OverflowError.
\<close>

definition fl_pow :: "pyfloat \<Rightarrow> nat \<Rightarrow> exn + pyfloat" where
  "fl_pow b n =
     (if n = 0 then Inr (Fin 1)
      else case b of
        Fin x \<Rightarrow>
          if overflow_bound \<le> \<bar>x ^ n\<bar>
          then Inl (Exn ''OverflowError'' ''(34, 'Numerical result out of range')'')
          else Inr (Fin (x ^ n))
      | PInf \<Rightarrow> Inr PInf
      | NInf \<Rightarrow> Inr (if even n then PInf else NInf)
      | NaN \<Rightarrow> Inr NaN)"

text \<open>
  \<^verbatim>\<open>random.uniform(a, b)\<close> is \<^verbatim>\<open>a + (b - a) * random.random()\<close>; the stream \<open>rnd\<close> gives the
  successive values of \<^verbatim>\<open>random.random()\<close>.
\<close>

definition uniform :: "(nat \<Rightarrow> rat) \<Rightarrow> pyfloat \<Rightarrow> pyfloat \<Rightarrow> world \<Rightarrow> pyfloat \<times> world" where
  "uniform rnd a b w =
     (fl_add a (fl_mul (fl_add b (fl_neg a)) (Fin (rnd (draws w)))),
      w\<lparr>draws := draws w + 1\<rparr>)"

text \<open>
  \<^verbatim>\<open>time.sleep(delay)\<close> converts the delay to nanoseconds in 64 bits and then refuses a
  negative one: a NaN raises ValueError, a delay out of that range (about 292 years, or an
  infinity) raises OverflowError, a negative delay raises ValueError. Otherwise the sleep
  is carried out.
\<close>

definition sleep :: "pyfloat \<Rightarrow> world \<Rightarrow> (exn + unit) \<times> world" where
  "sleep delay w =
     (case delay of
        NaN \<Rightarrow> (Inl (Exn ''ValueError'' ''Invalid value NaN (not a number)''), w)
      | PInf \<Rightarrow> (Inl (Exn ''OverflowError'' ''timestamp out of range for platform time_t''), w)
      | NInf \<Rightarrow> (Inl (Exn ''OverflowError'' ''timestamp out of range for platform time_t''), w)
      | Fin x \<Rightarrow>
          if 2 ^ 63 \<le> \<bar>x\<bar> * 10 ^ 9
          then (Inl (Exn ''OverflowError'' ''timestamp out of range for platform time_t''), w)
          else if x < 0
          then (Inl (Exn ''ValueError'' ''sleep length must be non-negative''), w)
          else (Inr (), w\<lparr>trace := trace w @ [Slept x]\<rparr>))"

record retry_config =
  max_retries :: int
  base_delay :: pyfloat
  max_delay :: pyfloat
  exponential_base :: pyfloat
  jitter :: bool

text \<open>The defaults of the signature: 3 retries, 1.0 s, 60.0 s, base 2.0, jitter on.\<close>

definition default_retry_config :: retry_config where
  "default_retry_config =
     \<lparr>max_retries = 3, base_delay = Fin 1, max_delay = Fin 60, exponential_base = Fin 2,
      jitter = True\<rparr>"

text \<open>
  The rest of the \<^verbatim>\<open>except\<close> block when the attempt is not the last: the delay
  \<^verbatim>\<open>min(base_delay * (exponential_base ** attempt), max_delay)\<close>, the jitter of a quarter of
  it either way, the log line, the sleep. The power and the sleep may raise; an error
  raised here leaves the function, whatever the operation had raised.
\<close>

definition backoff_step :: "retry_config \<Rightarrow> (nat \<Rightarrow> rat) \<Rightarrow> nat \<Rightarrow> world \<Rightarrow> (exn + unit) \<times> world" where
  "backoff_step cfg rnd attempt w =
     (case fl_pow (exponential_base cfg) attempt of
        Inl e \<Rightarrow> (Inl e, w)
      | Inr factor \<Rightarrow>
          (let delay = fl_min (fl_mul (base_delay cfg) factor) (max_delay cfg);
               (delay', w1) =
                 (if jitter cfg
                  then (let jitter_range = fl_mul delay (Fin (25 / 100));
                            (u, w') = uniform rnd (fl_neg jitter_range) jitter_range w
                        in (fl_add delay u, w'))
                  else (delay, w));
               w2 = log_event ''WARNING'' ''Operation failed, retrying'' w1
           in sleep delay' w2))"

text \<open>
  The \<^verbatim>\<open>for attempt in range(max_retries + 1)\<close> loop over the attempts still to run.
  The result is \<open>Inl\<close> the exception raised, or \<open>Inr (Some v)\<close> the operation's value, or
  \<open>Inr None\<close> when the function falls off its end and returns Python's \<^verbatim>\<open>None\<close>.
\<close>

fun retry_loop ::
  "retry_config \<Rightarrow> (nat \<Rightarrow> rat) \<Rightarrow> 'a operation \<Rightarrow> nat list \<Rightarrow> exn option \<Rightarrow> world
     \<Rightarrow> (exn + 'a option) \<times> world" where
  "retry_loop cfg rnd operation [] last_exception w =
     (case last_exception of Some e \<Rightarrow> (Inl e, w) | None \<Rightarrow> (Inr None, w))"
| "retry_loop cfg rnd operation (attempt # rest) last_exception w =
     (case invoke operation w of
        (Inr v, w1) \<Rightarrow> (Inr (Some v), w1)
      | (Inl e, w1) \<Rightarrow>
          if int attempt = max_retries cfg
          then (Inl e, log_event ''ERROR'' ''Operation failed after retries'' w1)
          else (case backoff_step cfg rnd attempt w1 of
                  (Inl e', w2) \<Rightarrow> (Inl e', w2)
                | (Inr u, w2) \<Rightarrow> retry_loop cfg rnd operation rest (Some e) w2))"

definition retry_with_backoff ::
  "retry_config \<Rightarrow> (nat \<Rightarrow> rat) \<Rightarrow> 'a operation \<Rightarrow> world \<Rightarrow> (exn + 'a option) \<times> world" where
  "retry_with_backoff cfg rnd operation w =
     retry_loop cfg rnd operation [0 ..< nat (max_retries cfg + 1)] None w"

text \<open>
  A reading of the configuration used in the proofs: the backoff step of each of the first
  \<open>n\<close> attempts goes through, from every world.
\<close>

definition backoff_succeeds :: "retry_config \<Rightarrow> (nat \<Rightarrow> rat) \<Rightarrow> nat \<Rightarrow> bool" where
  "backoff_succeeds cfg rnd n \<longleftrightarrow>
     (\<forall>attempt < n. \<forall>w. fst (backoff_step cfg rnd attempt w) = Inr ())"

text \<open>\<^verbatim>\<open>is_transient_error\<close>: text patterns on the lowered message, then class names.\<close>

definition transient_patterns :: "string list" where
  "transient_patterns =
     [''timeout'', ''connection'', ''throttl'', ''rate limit'', ''service unavailable'',
      ''internal server error'', ''500'', ''502'', ''503'', ''504'', ''temporar'']"

definition transient_types :: "string list" where
  "transient_types = [''TimeoutError'', ''ConnectionError'', ''BrokenPipeError'', ''IncompleteRead'']"

fun pattern_loop :: "string list \<Rightarrow> string \<Rightarrow> bool" where
  "pattern_loop [] error_message = False"
| "pattern_loop (pattern # rest) error_message =
     (if contains pattern error_message then True else pattern_loop rest error_message)"

definition is_transient_error :: "exn \<Rightarrow> bool" where
  "is_transient_error error =
     (let error_message = lower (exn_msg error);
          error_type = exn_type error
      in if pattern_loop transient_patterns error_message then True
         else if error_type \<in> set transient_types then True
         else False)"

text \<open>
  \<^verbatim>\<open>safe_invoke_claude\<close>: the operation is one call of \<^verbatim>\<open>invoke_claude\<close>; the retry runs with
  a 2 s base delay capped at 30 s; the classifier is asked once the retry has raised.
\<close>

definition safe_invoke_claude ::
  "int \<Rightarrow> (nat \<Rightarrow> rat) \<Rightarrow> 'a operation \<Rightarrow> world \<Rightarrow> (exn + 'a option) \<times> world" where
  "safe_invoke_claude retries rnd invoke_claude w =
     (case retry_with_backoff
             (default_retry_config
                \<lparr>max_retries := retries, base_delay := Fin 2, max_delay := Fin 30\<rparr>)
             rnd invoke_claude w of
        (Inr v, w') \<Rightarrow> (Inr v, w')
      | (Inl e, w') \<Rightarrow>
          (Inl e,
           if is_transient_error e
           then log_event ''ERROR'' ''Transient error detected, already retried'' w'
           else w'))"

text \<open>Readings of the trace.\<close>

definition sleeps :: "world \<Rightarrow> rat list" where
  "sleeps w = concat (map (\<lambda>ev. case ev of Slept d \<Rightarrow> [d] | _ \<Rightarrow> []) (trace w))"

fun effects :: "event list \<Rightarrow> event list" where
  "effects [] = []"
| "effects (Logged l m # evs) = effects evs"
| "effects (ev # evs) = ev # effects evs"

section \<open>Topic selector: \<^verbatim>\<open>TopicDiscoveryAgent\<close>\<close>

record topic =
  title :: string
  "keywords" :: "string list"
  category :: string

text \<open>The static topic bank of the module, entry by entry.\<close>

definition TOPIC_BANK :: "topic list" where
  "TOPIC_BANK =
     [
      \<lparr>title = ''Cycling Through Sri Lanka's Cultural Triangle'',
       keywords = [''sri lanka cultural triangle cycling'',
          ''anuradhapura polonnaruwa bike tour'', ''ancient cities cycling route'',
          ''sigiriya cycling experience''],
       category = ''Cultural Routes''\<rparr>,
      \<lparr>title = ''Hill Country Cycling Adventure Through Ceylon's Tea Estates'',
       keywords = [''sri lanka hill country cycling'', ''nuwara eliya bike tour'',
          ''tea plantation cycling route'', ''ella to kandy cycling''],
       category = ''Hill Country''\<rparr>,
      \<lparr>title = ''Coast to Coast: Sri Lanka's Ultimate Cycling Journey'',
       keywords = [''coast to coast cycling sri lanka'', ''cross country bike tour'',
          ''sri lanka cycling holiday'', ''galle to trincomalee cycling''],
       category = ''Epic Routes''\<rparr>,
      \<lparr>title = ''Cycling Sri Lanka's Southern Coast and Beaches'',
       keywords = [''south coast cycling sri lanka'', ''galle mirissa bike route'',
          ''beach cycling holiday'', ''coastal cycling tour''],
       category = ''Coastal Routes''\<rparr>,
      \<lparr>title = ''Knuckles Mountain Range: Sri Lanka's Premier Cycling Challenge'',
       keywords = [''knuckles mountain range cycling'', ''mountain biking sri lanka'',
          ''challenging cycling routes'', ''knuckles bike tour''],
       category = ''Mountain Biking''\<rparr>,
      \<lparr>title = ''Wildlife Cycling Safari: Yala to Udawalawe Adventure'',
       keywords = [''wildlife cycling sri lanka'', ''yala national park bike tour'',
          ''elephant cycling safari'', ''udawalawe cycling route''],
       category = ''Wildlife''\<rparr>,
      \<lparr>title = ''Cycling Sri Lanka: Complete Planning Guide for First-Timers'',
       keywords = [''cycling sri lanka guide'', ''plan bike tour sri lanka'',
          ''sri lanka cycling tips'', ''bike holiday planning''],
       category = ''Planning''\<rparr>,
      \<lparr>title = ''When to Cycle Sri Lanka: Seasonal Guide and Weather Patterns'',
       keywords = [''best time cycling sri lanka'', ''sri lanka cycling season'',
          ''monsoon cycling routes'', ''dry season bike tours''],
       category = ''Planning''\<rparr>,
      \<lparr>title = ''Gravel Cycling Adventures in Rural Sri Lanka'',
       keywords = [''gravel biking sri lanka'', ''gravel cycling routes'',
          ''rural cycling adventures'', ''off-road bike tours''],
       category = ''Adventure''\<rparr>,
      \<lparr>title = ''Cycling Through Sri Lanka's Spice Gardens and Plantations'',
       keywords = [''spice garden cycling tour'', ''cinnamon plantation cycling'',
          ''agricultural cycling routes'', ''farm to table bike tour''],
       category = ''Cultural Experience''\<rparr>,
      \<lparr>title = ''Family Cycling Holidays in Sri Lanka: Safe Routes and Activities'',
       keywords = [''family cycling sri lanka'', ''kid friendly bike tours'',
          ''safe cycling routes families'', ''family bike holiday asia''],
       category = ''Family Travel''\<rparr>,
      \<lparr>title = ''E-Bike Tours: Exploring Sri Lanka Without Breaking a Sweat'',
       keywords = [''e-bike tours sri lanka'', ''electric bicycle touring'',
          ''assisted cycling holiday'', ''ebike rental sri lanka''],
       category = ''E-Bike''\<rparr>,
      \<lparr>title = ''Cycling and Yoga Retreats: Wellness in Sri Lanka'',
       keywords = [''cycling yoga retreat sri lanka'', ''wellness bike tour'',
          ''active meditation holiday'', ''mindful cycling vacation''],
       category = ''Wellness''\<rparr>,
      \<lparr>title = ''Cycling Sri Lanka's Coffee Triangle: From Bean to Cup'',
       keywords = [''coffee cycling tour sri lanka'', ''coffee plantation bike route'',
          ''specialty coffee cycling'', ''haputale cycling experience''],
       category = ''Culinary''\<rparr>,
      \<lparr>title = ''Multi-Day Cycling Expeditions Across Sri Lanka'',
       keywords = [''multi day cycling tour sri lanka'', ''week long bike expedition'',
          ''cycling expedition asia'', ''supported bike tour sri lanka''],
       category = ''Epic Routes''\<rparr>,
      \<lparr>title = ''Cycling Safety and Road Conditions in Sri Lanka'',
       keywords = [''cycling safety sri lanka'', ''road conditions bike touring'',
          ''safe cycling tips asia'', ''sri lanka traffic cycling''],
       category = ''Safety''\<rparr>,
      \<lparr>title = ''Solo Cycling in Sri Lanka: Independent Travel Guide'',
       keywords = [''solo cycling sri lanka'', ''independent bike tour'',
          ''self guided cycling route'', ''solo traveler bike holiday''],
       category = ''Solo Travel''\<rparr>,
      \<lparr>title = ''Cycling and Wildlife Photography Safari in Sri Lanka'',
       keywords = [''cycling photography tour'', ''wildlife photography cycling'',
          ''photo safari bike tour'', ''photography cycling holiday''],
       category = ''Photography''\<rparr>,
      \<lparr>title = ''Budget-Friendly Cycling Tours and Backroads of Sri Lanka'',
       keywords = [''budget cycling sri lanka'', ''affordable bike tours'',
          ''backroads cycling routes'', ''cheap cycling holiday''],
       category = ''Budget Travel''\<rparr>,
      \<lparr>title = ''Luxury Cycling Holidays: Five-Star Tours of Sri Lanka'',
       keywords = [''luxury cycling sri lanka'', ''premium bike tours'',
          ''five star cycling holiday'', ''luxury bike tour asia''],
       category = ''Luxury''\<rparr>,
      \<lparr>title = ''Cycling Through Sri Lanka's Rice Paddies and Farming Villages'',
       keywords = [''rice paddy cycling tour'', ''farming village bike route'',
          ''rural cycling sri lanka'', ''agricultural cycling''],
       category = ''Rural Routes''\<rparr>,
      \<lparr>title = ''Cycling the Adam's Peak Pilgrimage Route'',
       keywords = [''adams peak cycling'', ''pilgrimage cycling route'', ''sri pada bike tour'',
          ''spiritual cycling journey''],
       category = ''Cultural Routes''\<rparr>,
      \<lparr>title = ''Night Sky Cycling: Stargazing Tours in Rural Sri Lanka'',
       keywords = [''night cycling sri lanka'', ''stargazing bike tour'',
          ''astronomy cycling experience'', ''dark sky cycling''],
       category = ''Unique Experiences''\<rparr>,
      \<lparr>title = ''Cycling and Ayurveda: Holistic Wellness Tours'',
       keywords = [''ayurveda cycling retreat'', ''holistic wellness bike tour'',
          ''traditional healing cycling'', ''ayurvedic cycling holiday''],
       category = ''Wellness''\<rparr>
     ]"

text \<open>
  One item of the workflow table, with the attributes the agents read. \<open>None\<close> is an
  absent attribute.
\<close>

record workflow_item =
  workflow_id :: string
  item_status :: "string option"
  created_at :: "string option"
  topic_title :: "string option"
  topic_category :: "string option"

text \<open>The two lists of the analysis dict that the selector reads (absent means empty).\<close>

record analysis =
  gap_categories :: "string list"
  underrepresented_categories :: "string list"

record selected_topic =
  sel_title :: string
  sel_keywords :: "string list"
  sel_category :: string
  uniqueness_score :: rat
  selection_reason :: string

text \<open>
  \<^verbatim>\<open>random.choice(seq)\<close> raises IndexError on an empty sequence and otherwise returns the
  element at a random index below \<^verbatim>\<open>len(seq)\<close>; \<open>r\<close> is the random number drawn.
\<close>

definition random_choice :: "nat \<Rightarrow> 'a list \<Rightarrow> exn + 'a" where
  "random_choice r seq =
     (if seq = [] then Inl (Exn ''IndexError'' ''Cannot choose from an empty sequence'')
      else Inr (seq ! (r mod length seq)))"

text \<open>
  The set of lowered titles of the published articles; an article with no title or an
  empty one contributes nothing.
\<close>

definition published_titles :: "workflow_item list \<Rightarrow> string set" where
  "published_titles published_articles =
     set (map (\<lambda>article. lower (case topic_title article of None \<Rightarrow> [] | Some t \<Rightarrow> t))
            (filter (\<lambda>article. case topic_title article of None \<Rightarrow> False | Some t \<Rightarrow> t \<noteq> [])
               published_articles))"

definition available_topics :: "workflow_item list \<Rightarrow> topic list" where
  "available_topics published_articles =
     (let unpublished =
            filter (\<lambda>topic. lower (title topic) \<notin> published_titles published_articles) TOPIC_BANK
      in if unpublished = [] then TOPIC_BANK else unpublished)"

definition priority_categories :: "analysis \<Rightarrow> string set" where
  "priority_categories a = set (gap_categories a @ underrepresented_categories a)"

text \<open>The body of the \<^verbatim>\<open>try\<close> of \<^verbatim>\<open>_select_unique_topic\<close>.\<close>

definition select_unique_topic_body ::
  "analysis \<Rightarrow> workflow_item list \<Rightarrow> nat \<Rightarrow> exn + selected_topic" where
  "select_unique_topic_body a published_articles r =
     (let available = available_topics published_articles;
          priority_topics = filter (\<lambda>topic. category topic \<in> priority_categories a) available
      in bind_exn
           (if priority_topics \<noteq> [] then random_choice r priority_topics
            else random_choice r available)
           (\<lambda>selected. Inr
              \<lparr>sel_title = title selected,
               sel_keywords = keywords selected,
               sel_category = category selected,
               uniqueness_score =
                 (if lower (title selected) \<notin> published_titles published_articles
                  then 1 else 1 / 2),
               selection_reason =
                 (if category selected \<in> priority_categories a
                  then ''Gap category: '' @ category selected
                  else ''Random selection from available topics'')\<rparr>))"

text \<open>
  \<^verbatim>\<open>_select_unique_topic\<close>: an error in the body falls back to a random topic of the whole
  bank, scored 0.5.
\<close>

definition select_unique_topic ::
  "analysis \<Rightarrow> workflow_item list \<Rightarrow> nat \<Rightarrow> exn + selected_topic" where
  "select_unique_topic a published_articles r =
     (case select_unique_topic_body a published_articles r of
        Inr result \<Rightarrow> Inr result
      | Inl e \<Rightarrow>
          bind_exn (random_choice r TOPIC_BANK)
            (\<lambda>fallback. Inr
               \<lparr>sel_title = title fallback,
                sel_keywords = keywords fallback,
                sel_category = category fallback,
                uniqueness_score = 1 / 2,
                selection_reason = ''Fallback - error during selection''\<rparr>))"

section \<open>Stale-workflow sweep: \<^verbatim>\<open>TopicDiscoveryAgent._cleanup_stale_workflows\<close>\<close>

text \<open>
  Timestamps are written by \<^verbatim>\<open>datetime.now(timezone.utc).isoformat()\<close> and compared by the
  table as strings. A datetime is its civil fields in UTC; \<open>isoformat\<close> follows Python's
  \<^verbatim>\<open>YYYY-MM-DDTHH:MM:SS[.ffffff]+00:00\<close>, where the fraction is left out when the
  microsecond is 0.
\<close>

record datetime =
  year :: nat
  month :: nat
  day :: nat
  hour :: nat
  minute :: nat
  second :: nat
  microsecond :: nat

definition valid_datetime :: "datetime \<Rightarrow> bool" where
  "valid_datetime d \<longleftrightarrow>
     1 \<le> year d \<and> year d \<le> 9999 \<and> 1 \<le> month d \<and> month d \<le> 12 \<and>
     1 \<le> day d \<and> day d \<le> 31 \<and> hour d < 24 \<and> minute d < 60 \<and> second d < 60 \<and>
     microsecond d < 1000000"

definition digit_char :: "nat \<Rightarrow> char" where
  "digit_char n = ''0123456789'' ! (n mod 10)"

text \<open>The last \<open>w\<close> decimal digits of \<open>n\<close>, zero-padded (\<^verbatim>\<open>%0wd\<close> for \<open>n < 10 ^ w\<close>).\<close>

fun pad :: "nat \<Rightarrow> nat \<Rightarrow> string" where
  "pad 0 n = []"
| "pad (Suc w) n = pad w (n div 10) @ [digit_char n]"

definition isoformat :: "datetime \<Rightarrow> string" where
  "isoformat d =
     pad 4 (year d) @ ''-'' @ pad 2 (month d) @ ''-'' @ pad 2 (day d) @ ''T'' @
     pad 2 (hour d) @ '':'' @ pad 2 (minute d) @ '':'' @ pad 2 (second d) @
     (if microsecond d = 0 then [] else ''.'' @ pad 6 (microsecond d)) @ ''+00:00''"

text \<open>Chronological order of two UTC datetimes: lexicographic on the fields.\<close>

definition earlier :: "datetime \<Rightarrow> datetime \<Rightarrow> bool" where
  "earlier a b \<longleftrightarrow>
     [year a, month a, day a, hour a, minute a, second a, microsecond a]
       < [year b, month b, day b, hour b, minute b, second b, microsecond b]"

text \<open>
  \<^verbatim>\<open>now - timedelta(hours=24)\<close> in the proleptic Gregorian calendar: the same time of day on
  the previous date; before year 1 Python raises OverflowError.
\<close>

definition is_leap :: "nat \<Rightarrow> bool" where
  "is_leap y \<longleftrightarrow> y mod 4 = 0 \<and> (y mod 100 \<noteq> 0 \<or> y mod 400 = 0)"

definition days_in_month :: "nat \<Rightarrow> nat \<Rightarrow> nat" where
  "days_in_month y m =
     (if m = 2 then (if is_leap y then 29 else 28)
      else if m \<in> {4, 6, 9, 11} then 30 else 31)"

definition minus_24h :: "datetime \<Rightarrow> exn + datetime" where
  "minus_24h d =
     (if 1 < day d then Inr (d\<lparr>day := day d - 1\<rparr>)
      else if 1 < month d
      then Inr (d\<lparr>month := month d - 1, day := days_in_month (year d) (month d - 1)\<rparr>)
      else if 1 < year d then Inr (d\<lparr>year := year d - 1, month := 12, day := 31\<rparr>)
      else Inl (Exn ''OverflowError'' ''date value out of range''))"

text \<open>
  The table is the list of its items in the order in which a scan reads them; the key
  \<open>workflow_id\<close> identifies an item. The store is an outside service: a scan or a delete
  may raise, as the environment says. One \<^verbatim>\<open>scan\<close> call reads one page: the store stops
  reading after 1 MB of items, applies the filter to what it has read and returns the
  matches with a \<^verbatim>\<open>LastEvaluatedKey\<close> for the rest. \<open>scan_page\<close> is the number of items the
  store reads in that one call.
\<close>

record store_env =
  scan_raises :: "exn option"
  delete_raises :: "string \<Rightarrow> exn option"
  scan_page :: nat

text \<open>A store that accepts every call and reads up to 50 items in a page.\<close>

definition reliable_store :: store_env where
  "reliable_store = \<lparr>scan_raises = None, delete_raises = (\<lambda>k. None), scan_page = 50\<rparr>"

text \<open>
  The filter expression
  \<^verbatim>\<open>Attr('status').eq('awaiting_approval') & Attr('created_at').lt(cutoff_timestamp)\<close>;
  strings compare lexicographically by character code.
\<close>

definition is_stale :: "string \<Rightarrow> workflow_item \<Rightarrow> bool" where
  "is_stale cutoff_timestamp w \<longleftrightarrow>
     item_status w = Some ''awaiting_approval'' \<and>
     (case created_at w of None \<Rightarrow> False | Some c \<Rightarrow> c < cutoff_timestamp)"

definition delete_item :: "string \<Rightarrow> workflow_item list \<Rightarrow> workflow_item list" where
  "delete_item k table = filter (\<lambda>w. workflow_id w \<noteq> k) table"

text \<open>The loop over the scanned items: a delete that raises is logged and skipped.\<close>

fun delete_loop ::
  "store_env \<Rightarrow> workflow_item list \<Rightarrow> workflow_item list \<Rightarrow> nat \<Rightarrow> workflow_item list \<times> nat" where
  "delete_loop env [] table deleted_count = (table, deleted_count)"
| "delete_loop env (workflow # rest) table deleted_count =
     (case delete_raises env (workflow_id workflow) of
        None \<Rightarrow> delete_loop env rest (delete_item (workflow_id workflow) table) (deleted_count + 1)
      | Some e \<Rightarrow> delete_loop env rest table deleted_count)"

record cleanup_summary =
  deleted_workflows :: nat
  cutoff_time :: "string option"
  reason :: "string option"
  cleanup_error :: "string option"

definition cleanup_failed :: "exn \<Rightarrow> cleanup_summary" where
  "cleanup_failed e =
     \<lparr>deleted_workflows = 0, cutoff_time = None, reason = None, cleanup_error = Some (exn_msg e)\<rparr>"

text \<open>
  \<^verbatim>\<open>_cleanup_stale_workflows\<close> at sweep time \<open>now\<close>: the table afterwards and the summary.
  The function calls \<^verbatim>\<open>scan\<close> once and takes the \<^verbatim>\<open>Items\<close> of the answer; it does not ask for
  further pages. Any error before the loop leaves the table as it was.
\<close>

definition cleanup_stale_workflows ::
  "store_env \<Rightarrow> datetime \<Rightarrow> workflow_item list \<Rightarrow> workflow_item list \<times> cleanup_summary" where
  "cleanup_stale_workflows env now table =
     (case minus_24h now of
        Inl e \<Rightarrow> (table, cleanup_failed e)
      | Inr cutoff \<Rightarrow>
          (let cutoff_timestamp = isoformat cutoff
           in case scan_raises env of
                Some e \<Rightarrow> (table, cleanup_failed e)
              | None \<Rightarrow>
                  (let stale_workflows =
                         filter (is_stale cutoff_timestamp) (take (scan_page env) table);
                       (table', deleted_count) = delete_loop env stale_workflows table 0
                   in (table',
                       \<lparr>deleted_workflows = deleted_count,
                        cutoff_time = Some cutoff_timestamp,
                        reason = Some ''Stale awaiting_approval >24h'',
                        cleanup_error = None\<rparr>))))"

section \<open>Workflow orchestrator: \<^verbatim>\<open>ManagerAgent\<close>\<close>

datatype WorkflowState =
  INITIALIZED | CLEANING | DISCOVERING_TOPIC | TOPIC_SELECTED | RESEARCHING
| RESEARCH_COMPLETE | WRITING | DRAFT_COMPLETE | CHECKING | APPROVED | NEEDS_REVISION
| REJECTED | EMAIL_SENT | PUBLISHED | DECLINED | FAILED

text \<open>The \<^verbatim>\<open>.value\<close> of a state: the string that is persisted.\<close>

fun state_value :: "WorkflowState \<Rightarrow> string" where
  "state_value INITIALIZED = ''initialized''"
| "state_value CLEANING = ''cleaning''"
| "state_value DISCOVERING_TOPIC = ''discovering_topic''"
| "state_value TOPIC_SELECTED = ''topic_selected''"
| "state_value RESEARCHING = ''researching''"
| "state_value RESEARCH_COMPLETE = ''research_complete''"
| "state_value WRITING = ''writing''"
| "state_value DRAFT_COMPLETE = ''draft_complete''"
| "state_value CHECKING = ''checking''"
| "state_value APPROVED = ''approved''"
| "state_value NEEDS_REVISION = ''needs_revision''"
| "state_value REJECTED = ''rejected''"
| "state_value EMAIL_SENT = ''email_sent''"
| "state_value PUBLISHED = ''published''"
| "state_value DECLINED = ''declined''"
| "state_value FAILED = ''failed''"

text \<open>
  The terminal states as the specification's state graph marks them (REJECTED, PUBLISHED,
  DECLINED, FAILED); the source has no such notion. This definition follows the
  specification's words and is what the orchestrator is compared with.
\<close>

definition spec_terminal_states :: "string set" where
  "spec_terminal_states =
     {state_value REJECTED, state_value PUBLISHED, state_value DECLINED, state_value FAILED}"

text \<open>
  What the stages hand back: dicts with a \<^verbatim>\<open>status\<close>, an \<^verbatim>\<open>error\<close> and their payload keys
  (\<open>None\<close> is an absent key).
\<close>

record topic_result =
  topic_status :: "string option"
  topic_error :: "string option"
  topic_selected :: "selected_topic option"

record research_result =
  research_status :: "string option"
  research_error :: "string option"
  research_payload :: "research_report option"

record writer_metadata =
  word_count :: "nat option"
  images_sourced :: "nat option"

record writer_result =
  writer_status :: "string option"
  writer_error :: "string option"
  writer_article :: "article option"
  writer_images :: "string list option"
  writer_metadata :: "writer_metadata option"

record checker_result =
  checker_status :: "string option"
  checker_error :: "string option"
  checker_validation :: "validation_result option"

text \<open>
  A stage is run by constructing its agent and calling \<^verbatim>\<open>execute\<close>; either may raise.
  The stages call the language model and the store, so their outcomes are inputs.
\<close>

datatype 'a stage = InitRaises exn | ExecuteRaises exn | Returns 'a

record manager_env =
  put_item_raises :: "exn option"
  update_raises :: "nat \<Rightarrow> exn option"
  topic_stage :: "topic_result stage"
  research_stage :: "research_result stage"
  writer_stage :: "writer_result stage"
  checker_stage :: "checker_result stage"
  email_sent :: bool
  store_article_raises :: "exn option"

text \<open>
  The part of the world the orchestrator changes: the persisted status of the workflow's
  record (\<open>None\<close> while there is no record), the number of status updates issued so far
  (the environment says which of them the store refuses), the number of calls of
  \<^verbatim>\<open>_send_approval_email\<close>, and whether the article data was stored.
\<close>

record manager_world =
  wf_status :: "string option"
  status_updates :: nat
  emails_attempted :: nat
  article_stored :: bool

definition initial_world :: manager_world where
  "initial_world =
     \<lparr>wf_status = None, status_updates = 0, emails_attempted = 0, article_stored = False\<rparr>"

type_synonym 'a action = "manager_world \<Rightarrow> (exn + 'a) \<times> manager_world"

definition succeed :: "'a \<Rightarrow> 'a action" where
  "succeed v w = (Inr v, w)"

definition raise :: "exn \<Rightarrow> 'a action" where
  "raise e w = (Inl e, w)"

definition and_then :: "'a action \<Rightarrow> ('a \<Rightarrow> 'b action) \<Rightarrow> 'b action" where
  "and_then m f w = (case m w of (Inl e, w') \<Rightarrow> (Inl e, w') | (Inr v, w') \<Rightarrow> f v w')"

text \<open>\<^verbatim>\<open>d[key]\<close> on a dict: KeyError when the key is absent.\<close>

definition index :: "'a option \<Rightarrow> string \<Rightarrow> 'a action" where
  "index field k = (case field of None \<Rightarrow> raise (key_error k) | Some v \<Rightarrow> succeed v)"

text \<open>\<^verbatim>\<open>_update_workflow_status\<close>: one conditional-free update of the status field; it re-raises
  what the store raises.\<close>

definition update_workflow_status :: "manager_env \<Rightarrow> WorkflowState \<Rightarrow> unit action" where
  "update_workflow_status env st w =
     (case update_raises env (status_updates w) of
        Some e \<Rightarrow> (Inl e, w\<lparr>status_updates := status_updates w + 1\<rparr>)
      | None \<Rightarrow>
          (Inr (), w\<lparr>wf_status := Some (state_value st),
                     status_updates := status_updates w + 1\<rparr>))"

text \<open>
  Constructing an agent, evaluating the arguments of \<^verbatim>\<open>execute\<close>, calling it.
\<close>

definition run_stage :: "'r stage \<Rightarrow> 'a action \<Rightarrow> 'r action" where
  "run_stage stage arguments =
     (case stage of
        InitRaises e \<Rightarrow> raise e
      | ExecuteRaises e \<Rightarrow> and_then arguments (\<lambda>_. raise e)
      | Returns r \<Rightarrow> and_then arguments (\<lambda>_. succeed r))"

text \<open>
  \<^verbatim>\<open>if result.get("status") != "success": raise Exception(f"... failed: {error}")\<close>
\<close>

definition check_success :: "string \<Rightarrow> string option \<Rightarrow> string option \<Rightarrow> unit action" where
  "check_success what status error =
     (if status \<noteq> Some ''success''
      then raise (Exn ''Exception''
                   (what @ '' failed: '' @ (case error of None \<Rightarrow> ''Unknown error'' | Some m \<Rightarrow> m)))
      else succeed ())"

text \<open>\<^verbatim>\<open>_send_approval_email\<close> catches every error and answers with a flag.\<close>

definition send_approval_email :: "manager_env \<Rightarrow> bool action" where
  "send_approval_email env w =
     (Inr (email_sent env), w\<lparr>emails_attempted := emails_attempted w + 1\<rparr>)"

text \<open>\<^verbatim>\<open>_store_article_data\<close> needs the article's title and swallows every error.\<close>

definition store_article_data :: "manager_env \<Rightarrow> article \<Rightarrow> unit action" where
  "store_article_data env art w =
     (if article_title art = None \<or> store_article_raises env \<noteq> None then (Inr (), w)
      else (Inr (), w\<lparr>article_stored := True\<rparr>))"

record workflow_result =
  result_status :: string
  result_message :: string
  result_validation :: validation_result
  result_preview_title :: "string option"

text \<open>
  From the verdict on: the status update by verdict, the early return on a rejection, the
  approval email, the stored article, the returned summary.
\<close>

definition after_validation ::
  "manager_env \<Rightarrow> writer_result \<Rightarrow> validation_result \<Rightarrow> workflow_result action" where
  "after_validation env writer_res validation =
     (if validation_status validation = ''APPROVED'' \<or>
         validation_status validation = ''NEEDS_REVISION''
      then
        and_then (update_workflow_status env
                    (if validation_status validation = ''APPROVED'' then APPROVED
                     else NEEDS_REVISION)) (\<lambda>_.
        and_then (index (writer_article writer_res) ''article'') (\<lambda>art.
        and_then (index (writer_images writer_res) ''images'') (\<lambda>images.
        and_then (send_approval_email env) (\<lambda>sent.
        and_then (update_workflow_status env EMAIL_SENT) (\<lambda>_.
        and_then (store_article_data env art) (\<lambda>_.
        and_then (index (article_title art) ''title'') (\<lambda>t.
          succeed
            \<lparr>result_status = state_value EMAIL_SENT,
             result_message = ''Phase 3 workflow completed successfully - '' @
                                validation_status validation,
             result_validation = validation,
             result_preview_title = Some t\<rparr>)))))))
      else
        and_then (update_workflow_status env REJECTED) (\<lambda>_.
          succeed
            \<lparr>result_status = state_value REJECTED,
             result_message = ''Article rejected - quality issues found'',
             result_validation = validation,
             result_preview_title = None\<rparr>))"

text \<open>The body of the \<^verbatim>\<open>try\<close> of \<^verbatim>\<open>_execute_workflow\<close>, stage by stage.\<close>

definition checking_step ::
  "manager_env \<Rightarrow> research_result \<Rightarrow> writer_result \<Rightarrow> workflow_result action" where
  "checking_step env research_res writer_res =
     and_then (update_workflow_status env CHECKING) (\<lambda>_.
     and_then (run_stage (checker_stage env)
                 (and_then (index (writer_article writer_res) ''article'') (\<lambda>_.
                    index (research_payload research_res) ''research_report'')))
       (\<lambda>checker_res.
     and_then (check_success ''Content checking'' (checker_status checker_res)
                 (checker_error checker_res)) (\<lambda>_.
     and_then (index (checker_validation checker_res) ''validation_result'') (\<lambda>validation.
       after_validation env writer_res validation))))"

definition writing_step :: "manager_env \<Rightarrow> research_result \<Rightarrow> workflow_result action" where
  "writing_step env research_res =
     and_then (update_workflow_status env WRITING) (\<lambda>_.
     and_then (run_stage (writer_stage env)
                 (index (research_payload research_res) ''research_report'')) (\<lambda>writer_res.
     and_then (check_success ''Writing'' (writer_status writer_res) (writer_error writer_res))
       (\<lambda>_.
     and_then (update_workflow_status env DRAFT_COMPLETE) (\<lambda>_.
     and_then (index (writer_metadata writer_res) ''metadata'') (\<lambda>metadata.
     and_then (index (word_count metadata) ''word_count'') (\<lambda>_.
     and_then (index (images_sourced metadata) ''images_sourced'') (\<lambda>_.
       checking_step env research_res writer_res)))))))"

definition research_step :: "manager_env \<Rightarrow> topic_result \<Rightarrow> workflow_result action" where
  "research_step env topic_res =
     and_then (update_workflow_status env RESEARCHING) (\<lambda>_.
     and_then (run_stage (research_stage env) (index (topic_selected topic_res) ''selected_topic''))
       (\<lambda>research_res.
     and_then (check_success ''Research'' (research_status research_res)
                 (research_error research_res)) (\<lambda>_.
     and_then (update_workflow_status env RESEARCH_COMPLETE) (\<lambda>_.
       writing_step env research_res))))"

definition execute_workflow_body :: "manager_env \<Rightarrow> workflow_result action" where
  "execute_workflow_body env =
     and_then (update_workflow_status env DISCOVERING_TOPIC) (\<lambda>_.
     and_then (run_stage (topic_stage env) (succeed ())) (\<lambda>topic_res.
     and_then (check_success ''Topic Discovery'' (topic_status topic_res) (topic_error topic_res))
       (\<lambda>_.
     and_then (update_workflow_status env TOPIC_SELECTED) (\<lambda>_.
       research_step env topic_res))))"

text \<open>
  The handler shared by \<^verbatim>\<open>_execute_workflow\<close> and \<^verbatim>\<open>start_workflow\<close>: mark the record FAILED
  and raise again; when the marking raises, that error is the one that leaves.
\<close>

definition mark_failed_and_reraise :: "manager_env \<Rightarrow> 'a action \<Rightarrow> 'a action" where
  "mark_failed_and_reraise env body w =
     (case body w of
        (Inr r, w') \<Rightarrow> (Inr r, w')
      | (Inl e, w') \<Rightarrow>
          (case update_workflow_status env FAILED w' of
             (Inl e', w'') \<Rightarrow> (Inl e', w'')
           | (Inr u, w'') \<Rightarrow> (Inl e, w'')))"

definition execute_workflow :: "manager_env \<Rightarrow> workflow_result action" where
  "execute_workflow env = mark_failed_and_reraise env (execute_workflow_body env)"

text \<open>\<^verbatim>\<open>put_item\<close> of the new record, with status INITIALIZED.\<close>

definition put_item :: "manager_env \<Rightarrow> unit action" where
  "put_item env w =
     (case put_item_raises env of
        Some e \<Rightarrow> (Inl e, w)
      | None \<Rightarrow> (Inr (), w\<lparr>wf_status := Some (state_value INITIALIZED)\<rparr>))"

definition start_workflow :: "manager_env \<Rightarrow> workflow_result action" where
  "start_workflow env =
     mark_failed_and_reraise env (and_then (put_item env) (\<lambda>_. execute_workflow env))"

text \<open>
  A reading of an action used in the proofs: whenever it returns, the persisted status is
  the status of the returned summary, and that is REJECTED or EMAIL_SENT.
\<close>

definition returns_settled :: "workflow_result action \<Rightarrow> bool" where
  "returns_settled act \<longleftrightarrow>
     (\<forall>w r w'. act w = (Inr r, w') \<longrightarrow>
        wf_status w' = Some (result_status r) \<and>
        (result_status r = state_value REJECTED \<or> result_status r = state_value EMAIL_SENT))"

section \<open>Example inputs\<close>

text \<open>A check result that only reports whether the check passed.\<close>

definition check_with :: "bool \<Rightarrow> check_result" where
  "check_with b =
     \<lparr>passed = Some b, accuracy_rate = None, coverage = None, items_found = None,
      items_total = None, missing = [], keyword_density_status = None,
      meta_title_status = None, check_error = None\<rparr>"

definition five_checks :: "bool \<Rightarrow> bool \<Rightarrow> bool \<Rightarrow> bool \<Rightarrow> bool \<Rightarrow> checks" where
  "five_checks fa seo ra un qu =
     [''factual_accuracy'' \<mapsto> check_with fa, ''seo_compliance'' \<mapsto> check_with seo,
      ''research_alignment'' \<mapsto> check_with ra, ''uniqueness'' \<mapsto> check_with un,
      ''quality'' \<mapsto> check_with qu]"

text \<open>Operations of the repository's retry test, and a random stream that yields no jitter.\<close>

definition always_fail :: "string operation" where
  "always_fail i = Inl (Exn ''ValueError'' ''Permanent error'')"

definition fail_then_succeed :: "string operation" where
  "fail_then_succeed i =
     (if i < 2 then Inl (Exn ''ConnectionError'' ''Temporary connection error'')
      else Inr ''success after retries'')"

definition no_jitter :: "nat \<Rightarrow> rat" where
  "no_jitter k = 1 / 2"

text \<open>A published article with a given title; histories made of them.\<close>

definition published :: "string \<Rightarrow> workflow_item" where
  "published t =
     \<lparr>workflow_id = ''workflow-'' @ t, item_status = Some ''published'',
      created_at = None, topic_title = Some t, topic_category = None\<rparr>"

definition no_analysis :: analysis where
  "no_analysis = \<lparr>gap_categories = [], underrepresented_categories = []\<rparr>"

definition all_published :: "workflow_item list" where
  "all_published = map (\<lambda>t. published (title t)) TOPIC_BANK"

text \<open>A sweep on 2026-11-04 at 07:28:00 UTC over three items.\<close>

definition dt :: "nat \<Rightarrow> nat \<Rightarrow> nat \<Rightarrow> nat \<Rightarrow> nat \<Rightarrow> nat \<Rightarrow> nat \<Rightarrow> datetime" where
  "dt y mo d h mi s us =
     \<lparr>year = y, month = mo, day = d, hour = h, minute = mi, second = s, microsecond = us\<rparr>"

definition item :: "string \<Rightarrow> string \<Rightarrow> datetime \<Rightarrow> workflow_item" where
  "item k st d =
     \<lparr>workflow_id = k, item_status = Some st, created_at = Some (isoformat d),
      topic_title = None, topic_category = None\<rparr>"

definition sweep_time :: datetime where
  "sweep_time = dt 2026 11 4 7 28 0 0"

definition four_stale :: "workflow_item list" where
  "four_stale =
     [item ''workflow-a'' ''awaiting_approval'' (dt 2026 10 1 9 0 0 0),
      item ''workflow-b'' ''awaiting_approval'' (dt 2026 10 2 9 0 0 0),
      item ''workflow-c'' ''awaiting_approval'' (dt 2026 10 3 9 0 0 0),
      item ''workflow-d'' ''awaiting_approval'' (dt 2026 10 4 9 0 0 0)]"

text \<open>
  An article whose body is one block with one text, and one whose only text is a number.
\<close>

definition body_of :: "string \<Rightarrow> article" where
  "body_of text =
     \<lparr>article_title = Some ''Cycling the Hill Country'',
      portable_text_body = [Block (Some ''block'') [Child (Some (JStr text))]]\<rparr>"

definition numeric_body :: article where
  "numeric_body =
     \<lparr>article_title = Some ''Cycling the Hill Country'',
      portable_text_body = [Block (Some ''block'') [Child (Some (JOther True))]]\<rparr>"

definition empty_report :: research_report where
  "empty_report = \<lparr>key_facts = [], must_include = []\<rparr>"

text \<open>
  A run in which every stage returns success and the checker hands back a given verdict, on
  a store that accepts every call; and runs in which one stage does not succeed.
\<close>

definition tea_report :: research_report where
  "tea_report = \<lparr>key_facts = [JStr ''Tea estates''], must_include = [JStr ''hills'']\<rparr>"

definition approved_validation :: validation_result where
  "approved_validation =
     validate ascii_ops (body_of ''Tea grows in the hills.'') tea_report
       (check_with True) (check_with True) (check_with True)"

definition rejected_validation :: validation_result where
  "rejected_validation =
     validate ascii_ops (body_of ''Tea grows in the hills.'') (tea_report\<lparr>key_facts := []\<rparr>)
       (check_with True) (check_with True) (check_with True)"

definition tea_topic :: selected_topic where
  "tea_topic =
     \<lparr>sel_title = ''Hill Country Cycling Adventure Through Ceylon's Tea Estates'',
      sel_keywords = [''sri lanka hill country cycling''],
      sel_category = ''Hill Country'',
      uniqueness_score = 1,
      selection_reason = ''Random selection from available topics''\<rparr>"

definition workflow_env :: "validation_result \<Rightarrow> manager_env" where
  "workflow_env v =
     \<lparr>put_item_raises = None,
      update_raises = (\<lambda>k. None),
      topic_stage = Returns
        \<lparr>topic_status = Some ''success'', topic_error = None, topic_selected = Some tea_topic\<rparr>,
      research_stage = Returns
        \<lparr>research_status = Some ''success'', research_error = None,
         research_payload = Some tea_report\<rparr>,
      writer_stage = Returns
        \<lparr>writer_status = Some ''success'', writer_error = None,
         writer_article = Some (body_of ''Tea grows in the hills.''),
         writer_images = Some [''https://images.example/tea.jpg''],
         writer_metadata = Some \<lparr>word_count = Some 2800, images_sourced = Some 3\<rparr>\<rparr>,
      checker_stage = Returns
        \<lparr>checker_status = Some ''success'', checker_error = None, checker_validation = Some v\<rparr>,
      email_sent = True,
      store_article_raises = None\<rparr>"

definition research_fails_env :: manager_env where
  "research_fails_env =
     (workflow_env approved_validation)
       \<lparr>research_stage := Returns
          \<lparr>research_status = Some ''error'', research_error = Some ''no sources'',
           research_payload = None\<rparr>\<rparr>"

definition writer_raises_env :: manager_env where
  "writer_raises_env =
     (workflow_env approved_validation)
       \<lparr>writer_stage := ExecuteRaises (Exn ''TimeoutError'' ''model call timed out'')\<rparr>"



section \<open>Properties of the quality gate\<close>

lemma get_passed_five_checks:
  "get_passed (five_checks fa seo ra un qu) ''factual_accuracy'' = fa"
  "get_passed (five_checks fa seo ra un qu) ''seo_compliance'' = seo"
  "get_passed (five_checks fa seo ra un qu) ''research_alignment'' = ra"
  "get_passed (five_checks fa seo ra un qu) ''uniqueness'' = un"
  "get_passed (five_checks fa seo ra un qu) ''quality'' = qu"
  by (simp_all add: get_passed_def five_checks_def check_with_def)

text \<open>
  C2. For every dict of check results, the score of \<^verbatim>\<open>_calculate_quality_score\<close> is the sum
  of the weights of exactly the passing checks: 0.25 factual accuracy, 0.25 SEO compliance,
  0.20 research alignment, 0.15 uniqueness, 0.15 quality. A check passes when its entry is
  present with \<^verbatim>\<open>passed\<close> true. All five passing gives 1; only the factual check failing gives
  0.75.
\<close>

theorem quality_score_is_weighted_sum:
  "calculate_quality_score cs =
     (if get_passed cs ''factual_accuracy'' then 25 / 100 else 0) +
     (if get_passed cs ''seo_compliance'' then 25 / 100 else 0) +
     (if get_passed cs ''research_alignment'' then 20 / 100 else 0) +
     (if get_passed cs ''uniqueness'' then 15 / 100 else 0) +
     (if get_passed cs ''quality'' then 15 / 100 else 0)
   \<and> (get_passed cs ''factual_accuracy'' \<and> get_passed cs ''seo_compliance'' \<and>
      get_passed cs ''research_alignment'' \<and> get_passed cs ''uniqueness'' \<and>
      get_passed cs ''quality'' \<longrightarrow> calculate_quality_score cs = 1)
   \<and> (\<not> get_passed cs ''factual_accuracy'' \<and> get_passed cs ''seo_compliance'' \<and>
      get_passed cs ''research_alignment'' \<and> get_passed cs ''uniqueness'' \<and>
      get_passed cs ''quality'' \<longrightarrow> calculate_quality_score cs = 75 / 100)"
  by (simp add: calculate_quality_score_def weights_def)

theorem quality_score_is_weighted_sum_witness:
  "calculate_quality_score (five_checks True True True True True) = 1
   \<and> calculate_quality_score (five_checks False True True True True) = 75 / 100
   \<and> calculate_quality_score (five_checks True False True False True) = 60 / 100"
  using quality_score_is_weighted_sum [of "five_checks True True True True True"]
    quality_score_is_weighted_sum [of "five_checks False True True True True"]
    quality_score_is_weighted_sum [of "five_checks True False True False True"]
  by (simp add: get_passed_five_checks)

text \<open>
  C3. When each of the five checks reports a \<^verbatim>\<open>passed\<close> flag, \<^verbatim>\<open>_make_decision\<close> returns
  REJECTED if the factual, the research-alignment (requirement coverage) or the uniqueness
  (novelty) check failed; otherwise NEEDS_REVISION if the SEO (structural) or the quality
  (readability) check failed; otherwise APPROVED. The score plays no part.
\<close>

theorem decision_by_check_outcomes:
  assumes "cs ''factual_accuracy'' = Some fa" and "passed fa = Some fa_passed"
    and "cs ''seo_compliance'' = Some seo" and "passed seo = Some seo_passed"
    and "cs ''research_alignment'' = Some ra" and "passed ra = Some ra_passed"
    and "cs ''uniqueness'' = Some un" and "passed un = Some un_passed"
    and "cs ''quality'' = Some qu" and "passed qu = Some quality_passed"
  shows "fst (make_decision cs score) =
     (if \<not> fa_passed \<or> \<not> ra_passed \<or> \<not> un_passed then ''REJECTED''
      else if \<not> seo_passed \<or> \<not> quality_passed then ''NEEDS_REVISION''
      else ''APPROVED'')"
  using assms
  by (simp add: make_decision_def make_decision_body_def bind_exn_def index_check_def
      index_passed_def decide_def split_beta Let_def)

theorem decision_by_check_outcomes_witness:
  "fst (make_decision (five_checks True True False True True) (80 / 100)) = ''REJECTED''
   \<and> fst (make_decision (five_checks True False True True True) (75 / 100)) = ''NEEDS_REVISION''
   \<and> fst (make_decision (five_checks True True True True True) 1) = ''APPROVED''"
  using
    decision_by_check_outcomes [of "five_checks True True False True True"
      "check_with True" True "check_with True" True "check_with False" False
      "check_with True" True "check_with True" True "80 / 100"]
    decision_by_check_outcomes [of "five_checks True False True True True"
      "check_with True" True "check_with False" False "check_with True" True
      "check_with True" True "check_with True" True "75 / 100"]
    decision_by_check_outcomes [of "five_checks True True True True True"
      "check_with True" True "check_with True" True "check_with True" True
      "check_with True" True "check_with True" True 1]
  by (simp add: five_checks_def check_with_def)

section \<open>Properties of the retry executor\<close>

lemma effects_append: "effects (xs @ ys) = effects xs @ effects ys"
  by (induction xs rule: effects.induct) simp_all

lemma invoke_simps:
  "fst (invoke operation w) = operation (calls w)"
  "calls (snd (invoke operation w)) = calls w + 1"
  "sleeps (snd (invoke operation w)) = sleeps w"
  "effects (trace (snd (invoke operation w))) = effects (trace w) @ [Invoked (calls w)]"
  by (simp_all add: invoke_def sleeps_def effects_append)

lemma log_event_simps:
  "calls (log_event l m w) = calls w"
  "sleeps (log_event l m w) = sleeps w"
  "effects (trace (log_event l m w)) = effects (trace w)"
  by (simp_all add: sleeps_def log_event_def effects_append)

lemma sleep_Inr:
  assumes "fst (sleep d w) = Inr u"
  shows "\<exists>x. snd (sleep d w) = w\<lparr>trace := trace w @ [Slept x]\<rparr>"
  using assms by (cases d) (auto simp: sleep_def split: if_splits)

lemma backoff_step_shape:
  "(\<exists>e. backoff_step cfg rnd a w = (Inl e, w)) \<or>
   (\<exists>d w1. calls w1 = calls w \<and> trace w1 = trace w \<and>
      backoff_step cfg rnd a w
        = sleep d (log_event ''WARNING'' ''Operation failed, retrying'' w1))"
proof (cases "fl_pow (exponential_base cfg) a")
  case (Inl e)
  then show ?thesis by (simp add: backoff_step_def)
next
  case (Inr f)
  show ?thesis
  proof (cases "jitter cfg")
    case True
    with Inr have "backoff_step cfg rnd a w
        = sleep (fl_add (fl_min (fl_mul (base_delay cfg) f) (max_delay cfg))
                   (fst (uniform rnd
                      (fl_neg (fl_mul (fl_min (fl_mul (base_delay cfg) f) (max_delay cfg)) (Fin (25 / 100))))
                      (fl_mul (fl_min (fl_mul (base_delay cfg) f) (max_delay cfg)) (Fin (25 / 100))) w)))
            (log_event ''WARNING'' ''Operation failed, retrying'' (w\<lparr>draws := draws w + 1\<rparr>))"
      by (simp add: backoff_step_def Let_def split_beta uniform_def)
    moreover have "calls (w\<lparr>draws := draws w + 1\<rparr>) = calls w"
      "trace (w\<lparr>draws := draws w + 1\<rparr>) = trace w" by simp_all
    ultimately show ?thesis by blast
  next
    case False
    with Inr have "backoff_step cfg rnd a w
        = sleep (fl_min (fl_mul (base_delay cfg) f) (max_delay cfg))
            (log_event ''WARNING'' ''Operation failed, retrying'' w)"
      by (simp add: backoff_step_def Let_def)
    then show ?thesis by blast
  qed
qed

lemma backoff_step_trace:
  assumes "fst (backoff_step cfg rnd a w) = Inr u"
  shows "\<exists>d. calls (snd (backoff_step cfg rnd a w)) = calls w \<and>
           trace (snd (backoff_step cfg rnd a w))
             = trace w @ [Logged ''WARNING'' ''Operation failed, retrying'', Slept d]"
proof -
  from backoff_step_shape [of cfg rnd a w] assms
  obtain d w1 where w1: "calls w1 = calls w" "trace w1 = trace w"
    and eq: "backoff_step cfg rnd a w
        = sleep d (log_event ''WARNING'' ''Operation failed, retrying'' w1)"
    by auto
  from assms eq have "fst (sleep d (log_event ''WARNING'' ''Operation failed, retrying'' w1)) = Inr u"
    by simp
  from sleep_Inr [OF this] obtain x where
    "snd (sleep d (log_event ''WARNING'' ''Operation failed, retrying'' w1))
       = (log_event ''WARNING'' ''Operation failed, retrying'' w1)
           \<lparr>trace := trace (log_event ''WARNING'' ''Operation failed, retrying'' w1) @ [Slept x]\<rparr>"
    by blast
  with eq w1 show ?thesis by (simp add: log_event_def)
qed

lemma backoff_step_simps:
  assumes "fst (backoff_step cfg rnd a w) = Inr u"
  shows "calls (snd (backoff_step cfg rnd a w)) = calls w"
    and "length (sleeps (snd (backoff_step cfg rnd a w))) = length (sleeps w) + 1"
    and "effects (trace (snd (backoff_step cfg rnd a w))) \<noteq> []"
proof -
  from backoff_step_trace [OF assms] obtain d where
    d: "calls (snd (backoff_step cfg rnd a w)) = calls w"
       "trace (snd (backoff_step cfg rnd a w))
             = trace w @ [Logged ''WARNING'' ''Operation failed, retrying'', Slept d]"
    by blast
  from d(1) show "calls (snd (backoff_step cfg rnd a w)) = calls w" .
  from d(2) show "length (sleeps (snd (backoff_step cfg rnd a w))) = length (sleeps w) + 1"
    by (simp add: sleeps_def)
  from d(2) show "effects (trace (snd (backoff_step cfg rnd a w))) \<noteq> []"
    by (simp add: effects_append)
qed

lemma retry_loop_Cons:
  "retry_loop cfg rnd operation (attempt # rest) le w =
     (case fst (invoke operation w) of
        Inr v \<Rightarrow> (Inr (Some v), snd (invoke operation w))
      | Inl e \<Rightarrow>
          if int attempt = max_retries cfg
          then (Inl e, log_event ''ERROR'' ''Operation failed after retries'' (snd (invoke operation w)))
          else (case fst (backoff_step cfg rnd attempt (snd (invoke operation w))) of
                  Inl e' \<Rightarrow> (Inl e', snd (backoff_step cfg rnd attempt (snd (invoke operation w))))
                | Inr u \<Rightarrow> retry_loop cfg rnd operation rest (Some e)
                             (snd (backoff_step cfg rnd attempt (snd (invoke operation w))))))"
  by (simp add: split_beta split: sum.splits prod.splits)

lemma retry_loop_success:
  assumes "j < length atts"
    and "\<forall>a \<in> set (take j atts). int a \<noteq> max_retries cfg"
    and "\<forall>a \<in> set (take j atts). \<forall>w. fst (backoff_step cfg rnd a w) = Inr ()"
    and "\<forall>i<j. isl (operation (calls w + i))"
    and "operation (calls w + j) = Inr v"
  shows "fst (retry_loop cfg rnd operation atts le w) = Inr (Some v)
       \<and> calls (snd (retry_loop cfg rnd operation atts le w)) = calls w + j + 1
       \<and> length (sleeps (snd (retry_loop cfg rnd operation atts le w))) = length (sleeps w) + j
       \<and> effects (trace (snd (retry_loop cfg rnd operation atts le w))) \<noteq> []
       \<and> last (effects (trace (snd (retry_loop cfg rnd operation atts le w)))) = Invoked (calls w + j)"
  using assms
proof (induction atts arbitrary: j w le)
  case Nil
  then show ?case by simp
next
  case (Cons a rest)
  show ?case
  proof (cases j)
    case 0
    with Cons.prems show ?thesis
      by (simp add: retry_loop_Cons invoke_simps del: retry_loop.simps)
  next
    case (Suc j')
    from Cons.prems Suc have fail: "isl (operation (calls w))" and ne: "int a \<noteq> max_retries cfg"
      by auto
    then obtain e where e: "operation (calls w) = Inl e"
      by (cases "operation (calls w)") auto
    let ?w' = "snd (backoff_step cfg rnd a (snd (invoke operation w)))"
    from Cons.prems(3) Suc
    have ok: "fst (backoff_step cfg rnd a (snd (invoke operation w))) = Inr ()" by simp
    have c: "calls ?w' = calls w + 1"
      by (simp add: backoff_step_simps [OF ok] invoke_simps)
    have s: "length (sleeps ?w') = length (sleeps w) + 1"
      by (simp add: backoff_step_simps [OF ok] invoke_simps)
    have step: "retry_loop cfg rnd operation (a # rest) le w = retry_loop cfg rnd operation rest (Some e) ?w'"
      using e ne ok by (simp add: retry_loop_Cons invoke_simps del: retry_loop.simps)
    have "fst (retry_loop cfg rnd operation rest (Some e) ?w') = Inr (Some v)
       \<and> calls (snd (retry_loop cfg rnd operation rest (Some e) ?w')) = calls ?w' + j' + 1
       \<and> length (sleeps (snd (retry_loop cfg rnd operation rest (Some e) ?w'))) = length (sleeps ?w') + j'
       \<and> effects (trace (snd (retry_loop cfg rnd operation rest (Some e) ?w'))) \<noteq> []
       \<and> last (effects (trace (snd (retry_loop cfg rnd operation rest (Some e) ?w')))) = Invoked (calls ?w' + j')"
    proof (rule Cons.IH)
      show "j' < length rest" using Cons.prems Suc by simp
      show "\<forall>a\<in>set (take j' rest). int a \<noteq> max_retries cfg" using Cons.prems Suc by simp
      show "\<forall>a\<in>set (take j' rest). \<forall>w. fst (backoff_step cfg rnd a w) = Inr ()"
        using Cons.prems(3) Suc by simp
      show "\<forall>i<j'. isl (operation (calls ?w' + i))" using Cons.prems(4) Suc c by auto
      show "operation (calls ?w' + j') = Inr v" using Cons.prems(5) Suc c by simp
    qed
    then show ?thesis
      unfolding step using c s Suc by simp
  qed
qed

lemma retry_loop_exhausted:
  assumes "atts \<noteq> []"
    and "int (last atts) = max_retries cfg"
    and "\<forall>a \<in> set (butlast atts). int a \<noteq> max_retries cfg"
    and "\<forall>a \<in> set (butlast atts). \<forall>w. fst (backoff_step cfg rnd a w) = Inr ()"
    and "\<forall>i<length atts. isl (operation (calls w + i))"
  shows "fst (retry_loop cfg rnd operation atts le w) = Inl (projl (operation (calls w + length atts - 1)))
       \<and> calls (snd (retry_loop cfg rnd operation atts le w)) = calls w + length atts
       \<and> length (sleeps (snd (retry_loop cfg rnd operation atts le w))) = length (sleeps w) + length atts - 1
       \<and> effects (trace (snd (retry_loop cfg rnd operation atts le w))) \<noteq> []
       \<and> last (effects (trace (snd (retry_loop cfg rnd operation atts le w)))) = Invoked (calls w + length atts - 1)"
  using assms
proof (induction atts arbitrary: w le)
  case Nil
  then show ?case by simp
next
  case (Cons a rest)
  from Cons.prems(5) have "isl (operation (calls w))" by auto
  then obtain e where e: "operation (calls w) = Inl e"
    by (cases "operation (calls w)") auto
  show ?case
  proof (cases "rest = []")
    case True
    with Cons.prems e show ?thesis
      by (simp add: retry_loop_Cons invoke_simps log_event_simps del: retry_loop.simps)
  next
    case False
    with Cons.prems have ne: "int a \<noteq> max_retries cfg" by simp
    let ?w' = "snd (backoff_step cfg rnd a (snd (invoke operation w)))"
    from Cons.prems(4) False
    have ok: "fst (backoff_step cfg rnd a (snd (invoke operation w))) = Inr ()" by simp
    have c: "calls ?w' = calls w + 1"
      by (simp add: backoff_step_simps [OF ok] invoke_simps)
    have s: "length (sleeps ?w') = length (sleeps w) + 1"
      by (simp add: backoff_step_simps [OF ok] invoke_simps)
    have step: "retry_loop cfg rnd operation (a # rest) le w = retry_loop cfg rnd operation rest (Some e) ?w'"
      using e ne ok by (simp add: retry_loop_Cons invoke_simps del: retry_loop.simps)
    have "fst (retry_loop cfg rnd operation rest (Some e) ?w') = Inl (projl (operation (calls ?w' + length rest - 1)))
       \<and> calls (snd (retry_loop cfg rnd operation rest (Some e) ?w')) = calls ?w' + length rest
       \<and> length (sleeps (snd (retry_loop cfg rnd operation rest (Some e) ?w'))) = length (sleeps ?w') + length rest - 1
       \<and> effects (trace (snd (retry_loop cfg rnd operation rest (Some e) ?w'))) \<noteq> []
       \<and> last (effects (trace (snd (retry_loop cfg rnd operation rest (Some e) ?w')))) = Invoked (calls ?w' + length rest - 1)"
    proof (rule Cons.IH)
      show "rest \<noteq> []" by (rule False)
      show "int (last rest) = max_retries cfg" using Cons.prems(2) False by simp
      show "\<forall>a\<in>set (butlast rest). int a \<noteq> max_retries cfg" using Cons.prems(3) False by simp
      show "\<forall>a\<in>set (butlast rest). \<forall>w. fst (backoff_step cfg rnd a w) = Inr ()"
        using Cons.prems(4) False by simp
      show "\<forall>i<length rest. isl (operation (calls ?w' + i))" using Cons.prems(5) c by auto
    qed
    moreover have "length rest > 0" using False by simp
    ultimately show ?thesis
      unfolding step using c s by simp
  qed
qed


text \<open>
  When every delay up to the last retry can be computed and slept, the executor started in a
  fresh world with \<^verbatim>\<open>max_retries\<close> = N \<ge> 0 behaves as follows. When each of the first N+1
  invocations raises, the operation is invoked exactly N+1 times, the exception of the last
  invocation is raised, N sleeps happen, and the last effect is the final invocation. When the
  k-th invocation (1 \<le> k \<le> N+1) is the first to return, it is invoked exactly k times, its
  value is returned, and k-1 sleeps happen, none after it.
\<close>

lemma retry_counts_when_backoff_succeeds:
  assumes "0 \<le> max_retries cfg"
    and "backoff_succeeds cfg rnd (nat (max_retries cfg))"
  shows
    "((\<forall>i \<le> nat (max_retries cfg). isl (operation i)) \<longrightarrow>
        fst (retry_with_backoff cfg rnd operation fresh_world)
          = Inl (projl (operation (nat (max_retries cfg))))
      \<and> calls (snd (retry_with_backoff cfg rnd operation fresh_world)) = nat (max_retries cfg) + 1
      \<and> length (sleeps (snd (retry_with_backoff cfg rnd operation fresh_world))) = nat (max_retries cfg)
      \<and> last (effects (trace (snd (retry_with_backoff cfg rnd operation fresh_world))))
          = Invoked (nat (max_retries cfg)))
   \<and> (\<forall>k v. 1 \<le> k \<and> k \<le> nat (max_retries cfg) + 1 \<and> (\<forall>i < k - 1. isl (operation i)) \<and>
          operation (k - 1) = Inr v \<longrightarrow>
        fst (retry_with_backoff cfg rnd operation fresh_world) = Inr (Some v)
      \<and> calls (snd (retry_with_backoff cfg rnd operation fresh_world)) = k
      \<and> length (sleeps (snd (retry_with_backoff cfg rnd operation fresh_world))) = k - 1
      \<and> last (effects (trace (snd (retry_with_backoff cfg rnd operation fresh_world))))
          = Invoked (k - 1))"
proof (intro conjI impI allI)
  let ?n = "nat (max_retries cfg)"
  let ?atts = "[0 ..< nat (max_retries cfg + 1)]"
  have n: "nat (max_retries cfg + 1) = Suc ?n" using assms(1) by simp
  have atts: "?atts = [0 ..< ?n] @ [?n]" by (simp add: n)
  have fresh: "calls fresh_world = 0" "sleeps fresh_world = []"
    by (simp_all add: fresh_world_def sleeps_def)
  have early: "\<forall>a \<in> set [0 ..< ?n]. int a \<noteq> max_retries cfg" using assms(1) by auto
  have steps: "\<forall>a \<in> set [0 ..< ?n]. \<forall>w. fst (backoff_step cfg rnd a w) = Inr ()"
    using assms(2) by (simp add: backoff_succeeds_def)
  {
    assume fails: "\<forall>i \<le> ?n. isl (operation i)"
    have "fst (retry_loop cfg rnd operation ?atts None fresh_world)
            = Inl (projl (operation (calls fresh_world + length ?atts - 1)))
       \<and> calls (snd (retry_loop cfg rnd operation ?atts None fresh_world))
            = calls fresh_world + length ?atts
       \<and> length (sleeps (snd (retry_loop cfg rnd operation ?atts None fresh_world)))
            = length (sleeps fresh_world) + length ?atts - 1
       \<and> effects (trace (snd (retry_loop cfg rnd operation ?atts None fresh_world))) \<noteq> []
       \<and> last (effects (trace (snd (retry_loop cfg rnd operation ?atts None fresh_world))))
            = Invoked (calls fresh_world + length ?atts - 1)"
    proof (rule retry_loop_exhausted)
      show "?atts \<noteq> []" by (simp add: n)
      show "int (last ?atts) = max_retries cfg" using assms(1) by (simp add: atts)
      show "\<forall>a \<in> set (butlast ?atts). int a \<noteq> max_retries cfg"
        using early by (simp add: atts)
      show "\<forall>a \<in> set (butlast ?atts). \<forall>w. fst (backoff_step cfg rnd a w) = Inr ()"
        using steps by (simp add: atts)
      show "\<forall>i<length ?atts. isl (operation (calls fresh_world + i))"
        using fails by (simp add: n fresh)
    qed
    then have all:
      "fst (retry_with_backoff cfg rnd operation fresh_world) = Inl (projl (operation ?n))
       \<and> calls (snd (retry_with_backoff cfg rnd operation fresh_world)) = ?n + 1
       \<and> length (sleeps (snd (retry_with_backoff cfg rnd operation fresh_world))) = ?n
       \<and> last (effects (trace (snd (retry_with_backoff cfg rnd operation fresh_world))))
            = Invoked ?n"
      by (simp add: retry_with_backoff_def n fresh)
    from all show "fst (retry_with_backoff cfg rnd operation fresh_world) = Inl (projl (operation ?n))"
      by simp
    from all show "calls (snd (retry_with_backoff cfg rnd operation fresh_world)) = ?n + 1"
      by simp
    from all show "length (sleeps (snd (retry_with_backoff cfg rnd operation fresh_world))) = ?n"
      by simp
    from all show "last (effects (trace (snd (retry_with_backoff cfg rnd operation fresh_world)))) = Invoked ?n"
      by simp
  }
  fix k :: nat and v
  assume k: "1 \<le> k \<and> k \<le> ?n + 1 \<and> (\<forall>i < k - 1. isl (operation i)) \<and> operation (k - 1) = Inr v"
  have tk: "take (k - 1) ?atts = [0 ..< k - 1]"
    unfolding n using k take_upt [of 0 "k - 1" "Suc (nat (max_retries cfg))"] by auto
  have "fst (retry_loop cfg rnd operation ?atts None fresh_world) = Inr (Some v)
       \<and> calls (snd (retry_loop cfg rnd operation ?atts None fresh_world))
            = calls fresh_world + (k - 1) + 1
       \<and> length (sleeps (snd (retry_loop cfg rnd operation ?atts None fresh_world)))
            = length (sleeps fresh_world) + (k - 1)
       \<and> effects (trace (snd (retry_loop cfg rnd operation ?atts None fresh_world))) \<noteq> []
       \<and> last (effects (trace (snd (retry_loop cfg rnd operation ?atts None fresh_world))))
            = Invoked (calls fresh_world + (k - 1))"
  proof (rule retry_loop_success)
    show "k - 1 < length ?atts" using k by (auto simp: n)
    show "\<forall>a \<in> set (take (k - 1) ?atts). int a \<noteq> max_retries cfg"
      using tk k assms(1) by auto
    show "\<forall>a \<in> set (take (k - 1) ?atts). \<forall>w. fst (backoff_step cfg rnd a w) = Inr ()"
      using tk k steps by auto
    show "\<forall>i<k - 1. isl (operation (calls fresh_world + i))" using k by (simp add: fresh)
    show "operation (calls fresh_world + (k - 1)) = Inr v" using k by (simp add: fresh)
  qed
  then have some:
    "fst (retry_with_backoff cfg rnd operation fresh_world) = Inr (Some v)
     \<and> calls (snd (retry_with_backoff cfg rnd operation fresh_world)) = k
     \<and> length (sleeps (snd (retry_with_backoff cfg rnd operation fresh_world))) = k - 1
     \<and> last (effects (trace (snd (retry_with_backoff cfg rnd operation fresh_world))))
          = Invoked (k - 1)"
    using k by (simp add: retry_with_backoff_def fresh)
  from some show "fst (retry_with_backoff cfg rnd operation fresh_world) = Inr (Some v)" by simp
  from some show "calls (snd (retry_with_backoff cfg rnd operation fresh_world)) = k" by simp
  from some show "length (sleeps (snd (retry_with_backoff cfg rnd operation fresh_world))) = k - 1" by simp
  from some show "last (effects (trace (snd (retry_with_backoff cfg rnd operation fresh_world)))) = Invoked (k - 1)" by simp
qed

lemma overflow_bound_large: "2 ^ 64 < overflow_bound"
  by (simp add: overflow_bound_def)

lemma rounded_Fin: "- overflow_bound < x \<Longrightarrow> x < overflow_bound \<Longrightarrow> rounded x = Fin x"
  by (simp add: rounded_def)

lemma rounded_small: "\<bar>x\<bar> < 2 ^ 64 \<Longrightarrow> rounded x = Fin x"
  using overflow_bound_large by (intro rounded_Fin) (simp_all add: abs_less_iff)

lemma fl_pow_small:
  "\<bar>x ^ n\<bar> < 2 ^ 64 \<Longrightarrow> fl_pow (Fin x) n = Inr (Fin (x ^ n))"
  using overflow_bound_large by (simp add: fl_pow_def)

lemma capped_delay:
  assumes "0 \<le> bd" and "0 \<le> p" and "0 \<le> md"
  shows "\<exists>d. 0 \<le> d \<and> d \<le> md \<and> fl_min (fl_mul (Fin bd) (Fin p)) (Fin md) = Fin d"
proof (cases "overflow_bound \<le> bd * p")
  case True
  then have "fl_mul (Fin bd) (Fin p) = PInf" by (simp add: rounded_def)
  with assms(3) show ?thesis by (simp add: fl_min_def)
next
  case False
  moreover have "0 \<le> bd * p" using assms by simp
  moreover have "0 < overflow_bound" using overflow_bound_large by simp
  ultimately have "fl_mul (Fin bd) (Fin p) = Fin (bd * p)" by (simp add: rounded_def)
  with assms \<open>0 \<le> bd * p\<close> show ?thesis by (auto simp: fl_min_def)
qed

lemma sleep_in_range:
  assumes "0 \<le> x" and "x * 10 ^ 9 < 2 ^ 63"
  shows "fst (sleep (Fin x) w) = Inr ()"
  using assms by (simp add: sleep_def abs_of_nonneg)

lemma jittered_delay:
  assumes "0 \<le> d" and "d * 125 / 100 * 10 ^ 9 < 2 ^ 63" and "0 \<le> r" and "r \<le> 1"
  shows "\<exists>x. 0 \<le> x \<and> x \<le> d * 125 / 100 \<and>
     fl_add (Fin d)
       (fl_add (fl_neg (fl_mul (Fin d) (Fin (25 / 100))))
          (fl_mul (fl_add (fl_mul (Fin d) (Fin (25 / 100)))
                     (fl_neg (fl_neg (fl_mul (Fin d) (Fin (25 / 100))))))
             (Fin r))) = Fin x"
proof -
  have big: "2 ^ 64 < overflow_bound" by (rule overflow_bound_large)
  have d_small: "d < 2 ^ 63" using assms(1,2) by simp
  have q: "fl_mul (Fin d) (Fin (25 / 100)) = Fin (d / 4)"
    using assms(1) d_small big by (simp add: rounded_def)
  have h: "fl_add (Fin (d / 4)) (fl_neg (fl_neg (Fin (d / 4)))) = Fin (d / 2)"
    using assms(1) d_small big by (simp add: rounded_def)
  define t where "t = d / 2 * r"
  have t: "0 \<le> t" "t \<le> d / 2"
    using assms(1,3,4) by (simp_all add: t_def mult_left_le)
  have "- overflow_bound < t" "t < overflow_bound"
    using t d_small big assms(1) by simp_all
  then have "rounded t = Fin t" by (rule rounded_Fin)
  then have m: "fl_mul (Fin (d / 2)) (Fin r) = Fin t"
    by (simp add: t_def)
  have u: "fl_add (fl_neg (Fin (d / 4))) (Fin t) = Fin (t - d / 4)"
    using t d_small big assms(1) by (simp add: rounded_def)
  have "- overflow_bound < d + (t - d / 4)" "d + (t - d / 4) < overflow_bound"
    using t d_small big assms(1) by auto
  then have "rounded (d + (t - d / 4)) = Fin (d + (t - d / 4))" by (rule rounded_Fin)
  then have s: "fl_add (Fin d) (Fin (t - d / 4)) = Fin (d + (t - d / 4))"
    by simp
  have "0 \<le> d + (t - d / 4)" "d + (t - d / 4) \<le> d * 125 / 100"
    using t assms(1) by simp_all
  with q h m u s show ?thesis by simp
qed

lemma backoff_succeeds_in_range:
  assumes "base_delay cfg = Fin bd" and "0 \<le> bd"
    and "max_delay cfg = Fin md" and "0 \<le> md" and "md * 125 / 100 * 10 ^ 9 < 2 ^ 63"
    and "exponential_base cfg = Fin b" and "0 \<le> b"
    and "\<forall>a < n. b ^ a < overflow_bound"
    and "\<forall>k. 0 \<le> rnd k \<and> rnd k \<le> 1"
  shows "backoff_succeeds cfg rnd n"
  unfolding backoff_succeeds_def
proof (intro allI impI)
  fix attempt w
  assume a: "attempt < n"
  have p0: "0 \<le> b ^ attempt" using assms(7) by simp
  have pw: "fl_pow (exponential_base cfg) attempt = Inr (Fin (b ^ attempt))"
    using assms(6,8) a p0 by (auto simp: fl_pow_def abs_of_nonneg)
  from capped_delay [OF assms(2) p0 assms(4)] obtain d where
    d: "0 \<le> d" "d \<le> md" "fl_min (fl_mul (Fin bd) (Fin (b ^ attempt))) (Fin md) = Fin d"
    by blast
  have dr: "d * 125 / 100 * 10 ^ 9 < 2 ^ 63"
    using d(2) assms(5) by (simp add: field_simps)
  show "fst (backoff_step cfg rnd attempt w) = Inr ()"
  proof (cases "jitter cfg")
    case False
    have "d * 10 ^ 9 < 2 ^ 63" using d(1) dr by simp
    with False pw d assms(1,3) show ?thesis
      by (simp add: backoff_step_def Let_def sleep_in_range)
  next
    case True
    from assms(9) have r: "0 \<le> rnd (draws w)" "rnd (draws w) \<le> 1" by simp_all
    from jittered_delay [OF d(1) dr r] obtain x where
      x: "0 \<le> x" "x \<le> d * 125 / 100"
        "fl_add (Fin d)
       (fl_add (fl_neg (fl_mul (Fin d) (Fin (25 / 100))))
          (fl_mul (fl_add (fl_mul (Fin d) (Fin (25 / 100)))
                     (fl_neg (fl_neg (fl_mul (Fin d) (Fin (25 / 100))))))
             (Fin (rnd (draws w))))) = Fin x"
      by blast
    have "x * 10 ^ 9 < 2 ^ 63" using x(2) dr by simp
    with True pw d x assms(1,3) show ?thesis
      by (simp add: backoff_step_def Let_def split_beta uniform_def sleep_in_range)
  qed
qed


lemma default_backoff_succeeds:
  assumes "n \<le> 1024" and "\<forall>k. 0 \<le> rnd k \<and> rnd k \<le> 1"
  shows "backoff_succeeds (default_retry_config\<lparr>max_retries := N\<rparr>) rnd n"
proof (rule backoff_succeeds_in_range [where bd = 1 and md = 60 and b = 2])
  show "\<forall>a<n. (2::rat) ^ a < overflow_bound"
  proof (intro allI impI)
    fix a assume "a < n"
    with assms(1) have "a \<le> 1023" by simp
    then have "(2::rat) ^ a \<le> 2 ^ 1023" by (rule power_increasing) simp
    also have "(2::rat) ^ 1023 < overflow_bound" by (simp add: overflow_bound_def)
    finally show "(2::rat) ^ a < overflow_bound" .
  qed
qed (use assms(2) in \<open>simp_all add: default_retry_config_def\<close>)

lemma retry_counts_examples:
  "calls (snd (retry_with_backoff (default_retry_config\<lparr>max_retries := 2\<rparr>) no_jitter always_fail fresh_world)) = 3
   \<and> fst (retry_with_backoff (default_retry_config\<lparr>max_retries := 2\<rparr>) no_jitter always_fail fresh_world) = Inl (Exn ''ValueError'' ''Permanent error'')
   \<and> length (sleeps (snd (retry_with_backoff (default_retry_config\<lparr>max_retries := 2\<rparr>) no_jitter always_fail fresh_world))) = 2
   \<and> calls (snd (retry_with_backoff default_retry_config no_jitter fail_then_succeed fresh_world)) = 3
   \<and> fst (retry_with_backoff default_retry_config no_jitter fail_then_succeed fresh_world) = Inr (Some ''success after retries'')"
proof -
  have j: "\<forall>k. 0 \<le> no_jitter k \<and> no_jitter k \<le> 1" by (simp add: no_jitter_def)
  have h: "0 \<le> max_retries (default_retry_config\<lparr>max_retries := 2\<rparr>)" 
      "0 \<le> max_retries default_retry_config"
    by (simp_all add: default_retry_config_def)
  have b2: "backoff_succeeds (default_retry_config\<lparr>max_retries := 2\<rparr>) no_jitter
              (nat (max_retries (default_retry_config\<lparr>max_retries := 2\<rparr>)))"
    by (rule default_backoff_succeeds [OF _ j]) simp
  have "default_retry_config\<lparr>max_retries := 3\<rparr> = default_retry_config"
    by (simp add: default_retry_config_def)
  with default_backoff_succeeds [OF _ j, of 3 3]
  have b3: "backoff_succeeds default_retry_config no_jitter (nat (max_retries default_retry_config))"
    by (simp add: default_retry_config_def)
  have f: "\<forall>i \<le> nat (max_retries (default_retry_config\<lparr>max_retries := 2\<rparr>)). isl (always_fail i)"
    by (simp add: always_fail_def)
  have s: "1 \<le> (3::nat) \<and> 3 \<le> nat (max_retries default_retry_config) + 1 \<and> (\<forall>i < 3 - 1. isl (fail_then_succeed i)) \<and>
          fail_then_succeed (3 - 1) = Inr ''success after retries''"
    by (simp add: default_retry_config_def fail_then_succeed_def)
  from retry_counts_when_backoff_succeeds [OF h(1) b2, of always_fail] f
  have A: "fst (retry_with_backoff (default_retry_config\<lparr>max_retries := 2\<rparr>) no_jitter always_fail fresh_world)
          = Inl (projl (always_fail (nat (max_retries (default_retry_config\<lparr>max_retries := 2\<rparr>)))))
      \<and> calls (snd (retry_with_backoff (default_retry_config\<lparr>max_retries := 2\<rparr>) no_jitter always_fail fresh_world))
          = nat (max_retries (default_retry_config\<lparr>max_retries := 2\<rparr>)) + 1
      \<and> length (sleeps (snd (retry_with_backoff (default_retry_config\<lparr>max_retries := 2\<rparr>) no_jitter always_fail fresh_world)))
          = nat (max_retries (default_retry_config\<lparr>max_retries := 2\<rparr>))"
    by blast
  from retry_counts_when_backoff_succeeds [OF h(2) b3, of fail_then_succeed] s
  have B: "fst (retry_with_backoff default_retry_config no_jitter fail_then_succeed fresh_world)
          = Inr (Some ''success after retries'')
      \<and> calls (snd (retry_with_backoff default_retry_config no_jitter fail_then_succeed fresh_world)) = 3"
    by blast
  show ?thesis
    using A B by (simp add: always_fail_def default_retry_config_def)
qed


lemma sleep_calls: "calls (snd (sleep d w)) = calls w"
  by (cases d) (simp_all add: sleep_def)

lemma backoff_step_calls: "calls (snd (backoff_step cfg rnd a w)) = calls w"
  using backoff_step_shape [of cfg rnd a w]
  by (auto simp: sleep_calls log_event_def)

lemma retry_loop_backoff_fails:
  assumes "j < length atts"
    and "\<forall>a \<in> set (take (Suc j) atts). int a \<noteq> max_retries cfg"
    and "\<forall>a \<in> set (take j atts). \<forall>w. fst (backoff_step cfg rnd a w) = Inr ()"
    and "\<forall>w. fst (backoff_step cfg rnd (atts ! j) w) = Inl e'"
    and "\<forall>i \<le> j. isl (operation (calls w + i))"
  shows "fst (retry_loop cfg rnd operation atts le w) = Inl e'
       \<and> calls (snd (retry_loop cfg rnd operation atts le w)) = calls w + j + 1"
  using assms
proof (induction atts arbitrary: j w le)
  case Nil
  then show ?case by simp
next
  case (Cons a rest)
  from Cons.prems(5) have "isl (operation (calls w))" by auto
  then obtain e where e: "operation (calls w) = Inl e"
    by (cases "operation (calls w)") auto
  from Cons.prems(2) have ne: "int a \<noteq> max_retries cfg" by simp
  let ?w' = "snd (backoff_step cfg rnd a (snd (invoke operation w)))"
  have c: "calls ?w' = calls w + 1"
    by (simp add: backoff_step_calls invoke_simps)
  show ?case
  proof (cases j)
    case 0
    with Cons.prems(4) have "fst (backoff_step cfg rnd a (snd (invoke operation w))) = Inl e'"
      by simp
    with e ne c show ?thesis
      by (simp add: 0 retry_loop_Cons invoke_simps del: retry_loop.simps)
  next
    case (Suc j')
    from Cons.prems(3) Suc
    have ok: "fst (backoff_step cfg rnd a (snd (invoke operation w))) = Inr ()" by simp
    have step: "retry_loop cfg rnd operation (a # rest) le w = retry_loop cfg rnd operation rest (Some e) ?w'"
      using e ne ok by (simp add: retry_loop_Cons invoke_simps del: retry_loop.simps)
    have "fst (retry_loop cfg rnd operation rest (Some e) ?w') = Inl e'
       \<and> calls (snd (retry_loop cfg rnd operation rest (Some e) ?w')) = calls ?w' + j' + 1"
    proof (rule Cons.IH)
      show "j' < length rest" using Cons.prems(1) Suc by simp
      show "\<forall>a\<in>set (take (Suc j') rest). int a \<noteq> max_retries cfg"
        using Cons.prems(2) Suc by simp
      show "\<forall>a\<in>set (take j' rest). \<forall>w. fst (backoff_step cfg rnd a w) = Inr ()"
        using Cons.prems(3) Suc by simp
      show "\<forall>w. fst (backoff_step cfg rnd (rest ! j') w) = Inl e'"
        using Cons.prems(4) Suc by simp
      show "\<forall>i\<le>j'. isl (operation (calls ?w' + i))"
        using Cons.prems(5) Suc c by auto
    qed
    then show ?thesis unfolding step using c Suc by simp
  qed
qed

lemma default_power_overflows:
  "fst (backoff_step (default_retry_config\<lparr>max_retries := N\<rparr>) rnd 1024 w)
     = Inl (Exn ''OverflowError'' ''(34, 'Numerical result out of range')'')"
  by (simp add: backoff_step_def default_retry_config_def fl_pow_def overflow_bound_def)

lemma default_retry_overflows:
  assumes "1025 \<le> N" and "\<forall>k. 0 \<le> rnd k \<and> rnd k \<le> 1" and "\<forall>i \<le> 1024. isl (operation i)"
  shows "fst (retry_with_backoff (default_retry_config\<lparr>max_retries := N\<rparr>) rnd operation fresh_world)
           = Inl (Exn ''OverflowError'' ''(34, 'Numerical result out of range')'')
       \<and> calls (snd (retry_with_backoff (default_retry_config\<lparr>max_retries := N\<rparr>) rnd operation
                  fresh_world)) = 1025"
proof -
  let ?cfg = "default_retry_config\<lparr>max_retries := N\<rparr>"
  let ?atts = "[0 ..< nat (max_retries ?cfg + 1)]"
  have len: "length ?atts = nat (N + 1)" by simp
  have big: "1024 < nat (N + 1)" using assms(1) by simp
  have nth: "?atts ! 1024 = 1024" using big by simp
  have tk: "take k ?atts = [0 ..< k]" if "k \<le> 1025" for k
    using that big take_upt [of 0 k "nat (N + 1)"] by simp
  have fresh: "calls fresh_world = 0" by (simp add: fresh_world_def)
  have "fst (retry_loop ?cfg rnd operation ?atts None fresh_world)
           = Inl (Exn ''OverflowError'' ''(34, 'Numerical result out of range')'')
       \<and> calls (snd (retry_loop ?cfg rnd operation ?atts None fresh_world))
           = calls fresh_world + 1024 + 1"
  proof (rule retry_loop_backoff_fails)
    show "1024 < length ?atts" using big by simp
    have "\<forall>a \<in> set [0 ..< Suc 1024]. int a \<noteq> N" using assms(1) by auto
    then show "\<forall>a \<in> set (take (Suc 1024) ?atts). int a \<noteq> max_retries ?cfg"
      using tk [of "Suc 1024"] by simp
    have "backoff_succeeds ?cfg rnd 1024"
      by (rule default_backoff_succeeds [OF _ assms(2)]) simp
    then show "\<forall>a \<in> set (take 1024 ?atts). \<forall>w. fst (backoff_step ?cfg rnd a w) = Inr ()"
      using tk [of 1024] by (simp add: backoff_succeeds_def)
    show "\<forall>w. fst (backoff_step ?cfg rnd (?atts ! 1024) w)
            = Inl (Exn ''OverflowError'' ''(34, 'Numerical result out of range')'')"
      unfolding nth by (simp add: default_power_overflows)
    show "\<forall>i \<le> 1024. isl (operation (calls fresh_world + i))"
      using assms(3) by (simp add: fresh)
  qed
  then show ?thesis by (simp add: retry_with_backoff_def fresh)
qed


text \<open>
  C4 (the code at the failing inputs). The delay before a retry is computed and slept inside
  the handler of the failed attempt, so an error there leaves the loop. On an operation that
  always raises ValueError, with no jitter: with the default configuration and
  \<^verbatim>\<open>max_retries\<close> = 1025 the power \<^verbatim>\<open>2.0 ** 1024\<close> raises OverflowError after the 1025th invocation, so
  the operation is invoked 1025 times, not 1026, and the OverflowError is raised in place of
  the operation's error; with \<^verbatim>\<open>exponential_base\<close> = 1e200 and the default of 3 retries the power
  \<^verbatim>\<open>1e200 ** 2\<close> overflows after the third invocation, so the operation is invoked 3 times, not
  4; with \<^verbatim>\<open>base_delay\<close> = -1.0 the first sleep is refused, so the operation is invoked once and
  the ValueError of \<^verbatim>\<open>time.sleep\<close> is raised.
\<close>

theorem retry_stops_early_when_delay_fails:
  "(\<forall>i. isl (always_fail i))
   \<and> calls (snd (retry_with_backoff (default_retry_config\<lparr>max_retries := 1025\<rparr>)
               no_jitter always_fail fresh_world)) = 1025
   \<and> fst (retry_with_backoff (default_retry_config\<lparr>max_retries := 1025\<rparr>)
               no_jitter always_fail fresh_world)
       = Inl (Exn ''OverflowError'' ''(34, 'Numerical result out of range')'')
   \<and> max_retries (default_retry_config\<lparr>exponential_base := Fin (10 ^ 200)\<rparr>) = 3
   \<and> calls (snd (retry_with_backoff (default_retry_config\<lparr>exponential_base := Fin (10 ^ 200)\<rparr>)
               no_jitter always_fail fresh_world)) = 3
   \<and> fst (retry_with_backoff (default_retry_config\<lparr>exponential_base := Fin (10 ^ 200)\<rparr>)
               no_jitter always_fail fresh_world)
       = Inl (Exn ''OverflowError'' ''(34, 'Numerical result out of range')'')
   \<and> calls (snd (retry_with_backoff (default_retry_config\<lparr>base_delay := Fin (- 1)\<rparr>)
               no_jitter always_fail fresh_world)) = 1
   \<and> fst (retry_with_backoff (default_retry_config\<lparr>base_delay := Fin (- 1)\<rparr>)
               no_jitter always_fail fresh_world)
       = Inl (Exn ''ValueError'' ''sleep length must be non-negative'')"
proof -
  have fails: "\<forall>i. isl (always_fail i)" by (simp add: always_fail_def)
  have j: "\<forall>k. 0 \<le> no_jitter k \<and> no_jitter k \<le> 1" by (simp add: no_jitter_def)
  from fails have "\<forall>i \<le> 1024. isl (always_fail i)" by simp
  from default_retry_overflows [OF _ j this, of 1025]
  have long: "fst (retry_with_backoff (default_retry_config\<lparr>max_retries := 1025\<rparr>)
               no_jitter always_fail fresh_world)
       = Inl (Exn ''OverflowError'' ''(34, 'Numerical result out of range')'')
     \<and> calls (snd (retry_with_backoff (default_retry_config\<lparr>max_retries := 1025\<rparr>)
               no_jitter always_fail fresh_world)) = 1025"
    by simp
  have huge: "calls (snd (retry_with_backoff (default_retry_config\<lparr>exponential_base := Fin (10 ^ 200)\<rparr>)
               no_jitter always_fail fresh_world)) = 3
   \<and> fst (retry_with_backoff (default_retry_config\<lparr>exponential_base := Fin (10 ^ 200)\<rparr>)
               no_jitter always_fail fresh_world)
       = Inl (Exn ''OverflowError'' ''(34, 'Numerical result out of range')'')"
    by (simp add: retry_with_backoff_def default_retry_config_def always_fail_def no_jitter_def
        fresh_world_def invoke_def backoff_step_def fl_pow_def fl_min_def rounded_def
        overflow_bound_def uniform_def log_event_def sleep_def upt_rec Let_def)
  have negative: "calls (snd (retry_with_backoff (default_retry_config\<lparr>base_delay := Fin (- 1)\<rparr>)
               no_jitter always_fail fresh_world)) = 1
   \<and> fst (retry_with_backoff (default_retry_config\<lparr>base_delay := Fin (- 1)\<rparr>)
               no_jitter always_fail fresh_world)
       = Inl (Exn ''ValueError'' ''sleep length must be non-negative'')"
    by (simp add: retry_with_backoff_def default_retry_config_def always_fail_def no_jitter_def
        fresh_world_def invoke_def backoff_step_def fl_pow_small fl_min_def rounded_small
        uniform_def log_event_def sleep_def upt_rec Let_def)
  from fails long huge negative show ?thesis
    by (simp add: default_retry_config_def)
qed


section \<open>Properties of the transient-error classifier\<close>

lemma starts_with_iff: "starts_with p s \<longleftrightarrow> (\<exists>b. s = p @ b)"
  by (induction p s rule: starts_with.induct) auto

lemma contains_iff: "contains p s \<longleftrightarrow> (\<exists>a b. s = a @ p @ b)"
proof (induction s)
  case Nil
  then show ?case by auto
next
  case (Cons c cs)
  show ?case
  proof
    assume "contains p (c # cs)"
    then consider "starts_with p (c # cs)" | "contains p cs" by auto
    then show "\<exists>a b. c # cs = a @ p @ b"
    proof cases
      case 1
      then obtain b where "c # cs = p @ b" by (auto simp: starts_with_iff)
      then have "c # cs = [] @ p @ b" by simp
      then show ?thesis by blast
    next
      case 2
      with Cons.IH obtain a b where "cs = a @ p @ b" by blast
      then have "c # cs = (c # a) @ p @ b" by simp
      then show ?thesis by blast
    qed
  next
    assume "\<exists>a b. c # cs = a @ p @ b"
    then obtain a b where ab: "c # cs = a @ p @ b" by blast
    show "contains p (c # cs)"
    proof (cases a)
      case Nil
      with ab have "starts_with p (c # cs)" by (auto simp: starts_with_iff)
      then show ?thesis by simp
    next
      case (Cons x a')
      with ab have "cs = a' @ p @ b" by simp
      with Cons.IH have "contains p cs" by blast
      then show ?thesis by simp
    qed
  qed
qed

lemma contains_map: "contains p s \<Longrightarrow> contains (map f p) (map f s)"
proof -
  assume "contains p s"
  then obtain a b where "s = a @ p @ b" by (auto simp: contains_iff)
  then have "map f s = map f a @ map f p @ map f b" by simp
  then show ?thesis unfolding contains_iff by blast
qed

lemma pattern_loop_iff: "pattern_loop ps m \<longleftrightarrow> (\<exists>p \<in> set ps. contains p m)"
  by (induction ps) auto

text \<open>
  C6. \<^verbatim>\<open>is_transient_error\<close> is true for an exception of class ConnectionError, for one of
  class TimeoutError, and for any exception whose message contains "503". It is false for a
  ValueError and for a KeyError whose message, matched as the classifier matches it (lowered
  first, so without regard to case), contains none of the transient patterns.
\<close>

theorem transient_classification:
  "(exn_type e = ''ConnectionError'' \<longrightarrow> is_transient_error e)
   \<and> (exn_type e = ''TimeoutError'' \<longrightarrow> is_transient_error e)
   \<and> (contains ''503'' (exn_msg e) \<longrightarrow> is_transient_error e)
   \<and> ((exn_type e = ''ValueError'' \<or> exn_type e = ''KeyError'') \<and>
        (\<forall>p \<in> set transient_patterns. \<not> contains p (lower (exn_msg e)))
      \<longrightarrow> \<not> is_transient_error e)"
proof (intro conjI impI)
  assume "exn_type e = ''ConnectionError''"
  then show "is_transient_error e"
    by (simp add: is_transient_error_def transient_types_def)
next
  assume "exn_type e = ''TimeoutError''"
  then show "is_transient_error e"
    by (simp add: is_transient_error_def transient_types_def)
next
  assume "contains ''503'' (exn_msg e)"
  then have "contains (lower ''503'') (lower (exn_msg e))"
    unfolding lower_def by (rule contains_map)
  moreover have "lower ''503'' = ''503''"
    by (simp add: lower_def lower_char_def)
  ultimately have "pattern_loop transient_patterns (lower (exn_msg e))"
    unfolding pattern_loop_iff by (simp add: transient_patterns_def)
  then show "is_transient_error e"
    by (simp add: is_transient_error_def)
next
  assume a: "(exn_type e = ''ValueError'' \<or> exn_type e = ''KeyError'') \<and>
        (\<forall>p \<in> set transient_patterns. \<not> contains p (lower (exn_msg e)))"
  then have "\<not> pattern_loop transient_patterns (lower (exn_msg e))"
    unfolding pattern_loop_iff by blast
  moreover from a have "exn_type e \<notin> set transient_types"
    by (auto simp: transient_types_def)
  ultimately show "\<not> is_transient_error e"
    by (simp add: is_transient_error_def)
qed

theorem transient_classification_witness:
  "is_transient_error (Exn ''ConnectionError'' ''peer went away'')
   \<and> is_transient_error (Exn ''TimeoutError'' ''deadline passed'')
   \<and> is_transient_error (Exn ''Exception'' ''503 Service Unavailable'')
   \<and> \<not> is_transient_error (Exn ''ValueError'' ''Invalid input'')
   \<and> \<not> is_transient_error (Exn ''KeyError'' ([CHR 0x27] @ ''Missing key'' @ [CHR 0x27]))"
  using transient_classification [of "Exn ''ConnectionError'' ''peer went away''"]
    transient_classification [of "Exn ''TimeoutError'' ''deadline passed''"]
    transient_classification [of "Exn ''Exception'' ''503 Service Unavailable''"]
    transient_classification [of "Exn ''ValueError'' ''Invalid input''"]
    transient_classification [of "Exn ''KeyError'' ([CHR 0x27] @ ''Missing key'' @ [CHR 0x27])"]
  by (simp add: transient_patterns_def lower_def lower_char_def)

text \<open>
  C5 (the code at the failing input). \<^verbatim>\<open>safe_invoke_claude\<close> with the default of 3 retries,
  on an operation that always raises a ValueError which the classifier calls non-transient:
  the operation is invoked four times, with three sleeps of 2, 4 and 8 seconds between, before the
  error is raised. The classifier is consulted only after the retries.
\<close>

theorem safe_invoke_retries_value_error:
  "\<not> is_transient_error (Exn ''ValueError'' ''Permanent error'')
   \<and> fst (safe_invoke_claude 3 no_jitter always_fail fresh_world) = Inl (Exn ''ValueError'' ''Permanent error'')
   \<and> calls (snd (safe_invoke_claude 3 no_jitter always_fail fresh_world)) = 4
   \<and> sleeps (snd (safe_invoke_claude 3 no_jitter always_fail fresh_world)) = [2, 4, 8]"
  by (simp add: safe_invoke_claude_def retry_with_backoff_def default_retry_config_def
      always_fail_def no_jitter_def fresh_world_def invoke_def backoff_step_def fl_pow_small
      fl_min_def rounded_small uniform_def
      log_event_def sleep_def sleeps_def is_transient_error_def transient_patterns_def
      transient_types_def lower_def lower_char_def upt_rec Let_def)


section \<open>Properties of the topic selector\<close>

lemma TOPIC_BANK_nonempty: "TOPIC_BANK \<noteq> []"
  by (simp add: TOPIC_BANK_def)

lemma available_topics_nonempty: "available_topics p \<noteq> []"
  by (simp add: available_topics_def Let_def TOPIC_BANK_nonempty)

lemma available_topics_subset: "set (available_topics p) \<subseteq> set TOPIC_BANK"
  by (auto simp: available_topics_def Let_def)

lemma available_topics_unpublished:
  assumes "t \<in> set (available_topics p)" and "lower (title t) \<in> published_titles p"
  shows "\<forall>b \<in> set TOPIC_BANK. lower (title b) \<in> published_titles p"
proof (cases "filter (\<lambda>topic. lower (title topic) \<notin> published_titles p) TOPIC_BANK = []")
  case True
  then show ?thesis by (simp add: filter_empty_conv)
next
  case False
  with assms show ?thesis by (auto simp: available_topics_def Let_def)
qed

lemma random_choice_mem: "seq \<noteq> [] \<Longrightarrow> \<exists>x \<in> set seq. random_choice r seq = Inr x"
  by (simp add: random_choice_def)

lemma select_body_returns:
  "\<exists>t \<in> set (available_topics p). select_unique_topic_body a p r = Inr
              \<lparr>sel_title = title t,
               sel_keywords = keywords t,
               sel_category = category t,
               uniqueness_score =
                 (if lower (title t) \<notin> published_titles p then 1 else 1 / 2),
               selection_reason =
                 (if category t \<in> priority_categories a
                  then ''Gap category: '' @ category t
                  else ''Random selection from available topics'')\<rparr>"
proof (cases "filter (\<lambda>topic. category topic \<in> priority_categories a) (available_topics p) = []")
  case True
  from random_choice_mem [of "available_topics p" r] available_topics_nonempty [of p]
  obtain t where "t \<in> set (available_topics p)" "random_choice r (available_topics p) = Inr t"
    by blast
  with True show ?thesis
    by (auto simp: select_unique_topic_body_def Let_def bind_exn_def)
next
  case False
  from random_choice_mem [of "filter (\<lambda>topic. category topic \<in> priority_categories a) (available_topics p)" r] False
  obtain t where t: "t \<in> set (filter (\<lambda>topic. category topic \<in> priority_categories a) (available_topics p))"
     "random_choice r (filter (\<lambda>topic. category topic \<in> priority_categories a) (available_topics p)) = Inr t"
    by blast
  then have "t \<in> set (available_topics p)" by simp
  with False t(2) show ?thesis
    by (auto simp: select_unique_topic_body_def Let_def bind_exn_def)
qed

lemma TOPIC_BANK_titles_nonempty: "\<forall>b \<in> set TOPIC_BANK. title b \<noteq> []"
  by (simp add: TOPIC_BANK_def)

lemma all_published_covers_bank:
  "\<forall>b \<in> set TOPIC_BANK. lower (title b) \<in> published_titles all_published"
proof
  fix b assume b: "b \<in> set TOPIC_BANK"
  with TOPIC_BANK_titles_nonempty have ne: "title b \<noteq> []" by blast
  have "published (title b) \<in> set all_published"
    using b by (simp add: all_published_def)
  moreover have "topic_title (published (title b)) = Some (title b)"
    by (simp add: published_def)
  ultimately show "lower (title b) \<in> published_titles all_published"
    using ne unfolding published_titles_def by force
qed

text \<open>
  C7. For every history of published articles, every analysis and every random draw,
  \<^verbatim>\<open>_select_unique_topic\<close> returns a topic of the bank. Its lowered title is among the lowered
  published titles only when the lowered title of every topic of the bank is (the pool is
  exhausted and the whole bank is used). The uniqueness score is 1 when the chosen title is
  not published and 0.5 when it is.
\<close>

theorem selected_topic_unique_unless_exhausted:
  "\<exists>result. select_unique_topic a p r = Inr result
     \<and> sel_title result \<in> title ` set TOPIC_BANK
     \<and> (lower (sel_title result) \<in> published_titles p \<longrightarrow>
          (\<forall>b \<in> set TOPIC_BANK. lower (title b) \<in> published_titles p))
     \<and> uniqueness_score result = (if lower (sel_title result) \<in> published_titles p then 1 / 2 else 1)"
proof -
  from select_body_returns obtain t where
    t: "t \<in> set (available_topics p)" and
    b: "select_unique_topic_body a p r = Inr
              \<lparr>sel_title = title t,
               sel_keywords = keywords t,
               sel_category = category t,
               uniqueness_score =
                 (if lower (title t) \<notin> published_titles p then 1 else 1 / 2),
               selection_reason =
                 (if category t \<in> priority_categories a
                  then ''Gap category: '' @ category t
                  else ''Random selection from available topics'')\<rparr>"
    by blast
  from t have "title t \<in> title ` set TOPIC_BANK"
    using available_topics_subset by blast
  moreover have "lower (title t) \<in> published_titles p \<longrightarrow>
          (\<forall>b \<in> set TOPIC_BANK. lower (title b) \<in> published_titles p)"
    using available_topics_unpublished [OF t] by blast
  ultimately show ?thesis
    by (simp add: select_unique_topic_def b)
qed


theorem selected_topic_unique_unless_exhausted_witness:
  "(\<exists>result. select_unique_topic no_analysis [] 30 = Inr result
      \<and> lower (sel_title result) \<notin> published_titles []
      \<and> uniqueness_score result = 1)
   \<and> (\<exists>result. select_unique_topic no_analysis all_published 30 = Inr result
      \<and> lower (sel_title result) \<in> published_titles all_published
      \<and> (\<forall>b \<in> set TOPIC_BANK. lower (title b) \<in> published_titles all_published)
      \<and> uniqueness_score result = 1 / 2)"
proof
  have "published_titles [] = {}" by (simp add: published_titles_def)
  with selected_topic_unique_unless_exhausted [of no_analysis "[]" 30]
  show "\<exists>result. select_unique_topic no_analysis [] 30 = Inr result
      \<and> lower (sel_title result) \<notin> published_titles []
      \<and> uniqueness_score result = 1"
    by auto
next
  from selected_topic_unique_unless_exhausted [of no_analysis all_published 30]
  obtain result where r: "select_unique_topic no_analysis all_published 30 = Inr result"
    "sel_title result \<in> title ` set TOPIC_BANK"
    "uniqueness_score result = (if lower (sel_title result) \<in> published_titles all_published then 1 / 2 else 1)"
    by blast
  from r(2) all_published_covers_bank
  have "lower (sel_title result) \<in> published_titles all_published" by auto
  with r all_published_covers_bank
  show "\<exists>result. select_unique_topic no_analysis all_published 30 = Inr result
      \<and> lower (sel_title result) \<in> published_titles all_published
      \<and> (\<forall>b \<in> set TOPIC_BANK. lower (title b) \<in> published_titles all_published)
      \<and> uniqueness_score result = 1 / 2"
    by simp
qed


section \<open>Properties of the stale-workflow sweep\<close>

lemma pad_length [simp]: "length (pad w n) = w"
  by (induction w n rule: pad.induct) simp_all

lemma append_less_iff:
  "length a = length b \<Longrightarrow> (a @ x < b @ y) \<longleftrightarrow> (a < b \<or> a = b \<and> x < y)"
  for a b x y :: "'a::linorder list"
  by (induction a b rule: list_induct2) auto

lemma of_char_digit: "n < 10 \<Longrightarrow> (of_char (digit_char n) :: nat) = 48 + n"
proof -
  assume small: "n < 10"
  have "map (\<lambda>k. (of_char (digit_char k) :: nat)) [0 ..< 10] = map (\<lambda>k. 48 + k) [0 ..< 10]"
    by (simp add: upt_rec digit_char_def)
  then have "\<forall>k \<in> set [0 ..< 10]. (of_char (digit_char k) :: nat) = 48 + k"
    by (simp only: map_eq_conv)
  with small show ?thesis by simp
qed

lemma digit_char_less: "i < 10 \<Longrightarrow> j < 10 \<Longrightarrow> digit_char i < digit_char j \<longleftrightarrow> i < j"
  by (simp add: less_char_def of_char_digit)

lemma digit_char_eq: "i < 10 \<Longrightarrow> j < 10 \<Longrightarrow> digit_char i = digit_char j \<longleftrightarrow> i = j"
  by (metis of_char_digit add_left_cancel)

lemma digit_char_mod: "digit_char n = digit_char (n mod 10)"
  by (simp add: digit_char_def)

lemma pad_eq_iff: "n < 10 ^ w \<Longrightarrow> m < 10 ^ w \<Longrightarrow> pad w n = pad w m \<longleftrightarrow> n = m"
proof (induction w arbitrary: n m)
  case 0
  then show ?case by simp
next
  case (Suc w)
  then have d: "n div 10 < 10 ^ w" "m div 10 < 10 ^ w"
    by (simp_all add: less_mult_imp_div_less mult.commute)
  have "pad (Suc w) n = pad (Suc w) m \<longleftrightarrow> n div 10 = m div 10 \<and> digit_char (n mod 10) = digit_char (m mod 10)"
    using Suc.IH [OF d] digit_char_mod [of n] digit_char_mod [of m] by simp
  also have "\<dots> \<longleftrightarrow> n div 10 = m div 10 \<and> n mod 10 = m mod 10"
    by (simp add: digit_char_eq)
  also have "\<dots> \<longleftrightarrow> n = m" by (metis div_mult_mod_eq)
  finally show ?case .
qed

lemma pad_less_iff: "n < 10 ^ w \<Longrightarrow> m < 10 ^ w \<Longrightarrow> pad w n < pad w m \<longleftrightarrow> n < m"
proof (induction w arbitrary: n m)
  case 0
  then show ?case by simp
next
  case (Suc w)
  then have d: "n div 10 < 10 ^ w" "m div 10 < 10 ^ w"
    by (simp_all add: less_mult_imp_div_less mult.commute)
  have "pad (Suc w) n < pad (Suc w) m \<longleftrightarrow>
      pad w (n div 10) < pad w (m div 10) \<or>
      pad w (n div 10) = pad w (m div 10) \<and> digit_char (n mod 10) < digit_char (m mod 10)"
    using digit_char_mod [of n] digit_char_mod [of m] by (simp add: append_less_iff)
  also have "\<dots> \<longleftrightarrow> n div 10 < m div 10 \<or> n div 10 = m div 10 \<and> n mod 10 < m mod 10"
    using Suc.IH [OF d] pad_eq_iff [OF d] by (simp add: digit_char_less)
  also have "\<dots> \<longleftrightarrow> n < m"
  proof -
    have "n = 10 * (n div 10) + n mod 10" "m = 10 * (m div 10) + m mod 10" by simp_all
    moreover have "n mod 10 < 10" "m mod 10 < 10" by simp_all
    ultimately show ?thesis by linarith
  qed
  finally show ?case .
qed


lemma fraction_less_iff:
  assumes "ua < 10 ^ 6" and "ub < 10 ^ 6"
  shows "(if ua = 0 then [] else ''.'' @ pad 6 ua) @ ''+00:00''
           < (if ub = 0 then [] else ''.'' @ pad 6 ub) @ ''+00:00'' \<longleftrightarrow> ua < ub"
proof -
  have plus_dot: "CHR ''+'' < CHR ''.''" "\<not> CHR ''.'' < CHR ''+''" "CHR ''.'' \<noteq> CHR ''+''"
    by (simp_all add: less_char_def)
  have both: "pad 6 ua @ ''+00:00'' < pad 6 ub @ ''+00:00'' \<longleftrightarrow> ua < ub"
    using assms by (simp add: append_less_iff pad_less_iff)
  show ?thesis
  proof (cases "ua = 0")
    case a0: True
    show ?thesis
    proof (cases "ub = 0")
      case True
      with a0 show ?thesis by simp
    next
      case False
      with a0 plus_dot show ?thesis by simp
    qed
  next
    case a1: False
    show ?thesis
    proof (cases "ub = 0")
      case True
      with a1 plus_dot show ?thesis by simp
    next
      case False
      with a1 both show ?thesis by simp
    qed
  qed
qed

lemma isoformat_less_iff:
  assumes "valid_datetime a" and "valid_datetime b"
  shows "isoformat a < isoformat b \<longleftrightarrow> earlier a b"
proof -
  have r: "year a < 10 ^ 4" "year b < 10 ^ 4" "month a < 10 ^ 2" "month b < 10 ^ 2"
    "day a < 10 ^ 2" "day b < 10 ^ 2" "hour a < 10 ^ 2" "hour b < 10 ^ 2"
    "minute a < 10 ^ 2" "minute b < 10 ^ 2" "second a < 10 ^ 2" "second b < 10 ^ 2"
    "microsecond a < 10 ^ 6" "microsecond b < 10 ^ 6"
    using assms by (simp_all add: valid_datetime_def)
  note f = fraction_less_iff [OF r(13) r(14)]
  have s: "pad 2 (second a) @ (if microsecond a = 0 then [] else ''.'' @ pad 6 (microsecond a)) @ ''+00:00''
         < pad 2 (second b) @ (if microsecond b = 0 then [] else ''.'' @ pad 6 (microsecond b)) @ ''+00:00''
       \<longleftrightarrow> [second a, microsecond a] < [second b, microsecond b]"
    using f by (simp add: append_less_iff pad_less_iff [OF r(11) r(12)] pad_eq_iff [OF r(11) r(12)])
  have mi: "pad 2 (minute a) @ '':'' @ pad 2 (second a) @ (if microsecond a = 0 then [] else ''.'' @ pad 6 (microsecond a)) @ ''+00:00''
         < pad 2 (minute b) @ '':'' @ pad 2 (second b) @ (if microsecond b = 0 then [] else ''.'' @ pad 6 (microsecond b)) @ ''+00:00''
       \<longleftrightarrow> [minute a, second a, microsecond a] < [minute b, second b, microsecond b]"
    using s by (simp add: append_less_iff pad_less_iff [OF r(9) r(10)] pad_eq_iff [OF r(9) r(10)])
  have h: "pad 2 (hour a) @ '':'' @ pad 2 (minute a) @ '':'' @ pad 2 (second a) @ (if microsecond a = 0 then [] else ''.'' @ pad 6 (microsecond a)) @ ''+00:00''
         < pad 2 (hour b) @ '':'' @ pad 2 (minute b) @ '':'' @ pad 2 (second b) @ (if microsecond b = 0 then [] else ''.'' @ pad 6 (microsecond b)) @ ''+00:00''
       \<longleftrightarrow> [hour a, minute a, second a, microsecond a] < [hour b, minute b, second b, microsecond b]"
    using mi by (simp add: append_less_iff pad_less_iff [OF r(7) r(8)] pad_eq_iff [OF r(7) r(8)])
  have d: "pad 2 (day a) @ ''T'' @ pad 2 (hour a) @ '':'' @ pad 2 (minute a) @ '':'' @ pad 2 (second a) @ (if microsecond a = 0 then [] else ''.'' @ pad 6 (microsecond a)) @ ''+00:00''
         < pad 2 (day b) @ ''T'' @ pad 2 (hour b) @ '':'' @ pad 2 (minute b) @ '':'' @ pad 2 (second b) @ (if microsecond b = 0 then [] else ''.'' @ pad 6 (microsecond b)) @ ''+00:00''
       \<longleftrightarrow> [day a, hour a, minute a, second a, microsecond a] < [day b, hour b, minute b, second b, microsecond b]"
    using h by (simp add: append_less_iff pad_less_iff [OF r(5) r(6)] pad_eq_iff [OF r(5) r(6)])
  have mo: "pad 2 (month a) @ ''-'' @ pad 2 (day a) @ ''T'' @ pad 2 (hour a) @ '':'' @ pad 2 (minute a) @ '':'' @ pad 2 (second a) @ (if microsecond a = 0 then [] else ''.'' @ pad 6 (microsecond a)) @ ''+00:00''
         < pad 2 (month b) @ ''-'' @ pad 2 (day b) @ ''T'' @ pad 2 (hour b) @ '':'' @ pad 2 (minute b) @ '':'' @ pad 2 (second b) @ (if microsecond b = 0 then [] else ''.'' @ pad 6 (microsecond b)) @ ''+00:00''
       \<longleftrightarrow> [month a, day a, hour a, minute a, second a, microsecond a] < [month b, day b, hour b, minute b, second b, microsecond b]"
    using d by (simp add: append_less_iff pad_less_iff [OF r(3) r(4)] pad_eq_iff [OF r(3) r(4)])
  show ?thesis
    unfolding isoformat_def earlier_def
    using mo by (simp add: append_less_iff pad_less_iff [OF r(1) r(2)] pad_eq_iff [OF r(1) r(2)])
qed

lemma days_in_month_bounds: "1 \<le> days_in_month y m \<and> days_in_month y m \<le> 31"
  by (simp add: days_in_month_def)

lemma minus_24h_valid:
  assumes "valid_datetime d" and "minus_24h d = Inr c"
  shows "valid_datetime c"
  using assms days_in_month_bounds [of "year d" "month d - 1"]
  by (auto simp: minus_24h_def valid_datetime_def split: if_splits)


lemma delete_loop_reliable:
  assumes "\<forall>k. delete_raises env k = None"
  shows "delete_loop env stale table n =
           (filter (\<lambda>w. workflow_id w \<notin> workflow_id ` set stale) table, n + length stale)"
  using assms
proof (induction stale arbitrary: table n)
  case Nil
  then show ?case by simp
next
  case (Cons s stale)
  have "filter (\<lambda>w. workflow_id w \<notin> workflow_id ` set stale) (delete_item (workflow_id s) table)
      = filter (\<lambda>w. workflow_id w \<notin> workflow_id ` set (s # stale)) table"
    by (auto simp: delete_item_def intro: filter_cong)
  with Cons show ?case by simp
qed

lemma delete_loop_keeps:
  assumes "w \<in> set table" and "workflow_id w \<notin> workflow_id ` set stale"
  shows "w \<in> set (fst (delete_loop env stale table n))"
  using assms
proof (induction stale arbitrary: table n)
  case Nil
  then show ?case by simp
next
  case (Cons s stale)
  from Cons.prems have "w \<in> set (delete_item (workflow_id s) table)"
    by (auto simp: delete_item_def)
  with Cons show ?case by (auto split: option.splits)
qed

lemma distinct_ids_filter:
  assumes "distinct (map workflow_id table)" and "set scanned \<subseteq> set table"
  shows "filter (\<lambda>w. workflow_id w \<notin> workflow_id ` set scanned) table
           = filter (\<lambda>w. w \<notin> set scanned) table"
proof (rule filter_cong [OF refl])
  fix w assume w: "w \<in> set table"
  from assms(1) have inj: "inj_on workflow_id (set table)" by (simp add: distinct_map)
  show "(workflow_id w \<notin> workflow_id ` set scanned) = (w \<notin> set scanned)"
  proof
    assume "workflow_id w \<notin> workflow_id ` set scanned"
    then show "w \<notin> set scanned" by auto
  next
    assume nw: "w \<notin> set scanned"
    show "workflow_id w \<notin> workflow_id ` set scanned"
    proof
      assume "workflow_id w \<in> workflow_id ` set scanned"
      then obtain v where v: "v \<in> set scanned" "workflow_id v = workflow_id w" by auto
      with assms(2) have "v \<in> set table" by auto
      with inj w v(2) have "v = w" by (auto dest: inj_onD)
      with v nw show False by simp
    qed
  qed
qed

lemma sweep_deletes_stale_items_of_first_page:
  assumes "distinct (map workflow_id table)"
    and "valid_datetime now"
    and "minus_24h now = Inr cutoff"
  shows
    "(scan_raises env = None \<and> (\<forall>k. delete_raises env k = None) \<longrightarrow>
        fst (cleanup_stale_workflows env now table)
          = filter (\<lambda>w. \<not> (is_stale (isoformat cutoff) w \<and> w \<in> set (take (scan_page env) table)))
              table)
     \<and> (scan_raises env = None \<and> (\<forall>k. delete_raises env k = None) \<and>
        length table \<le> scan_page env \<longrightarrow>
        fst (cleanup_stale_workflows env now table)
          = filter (\<lambda>w. \<not> is_stale (isoformat cutoff) w) table)
     \<and> (\<forall>w \<in> set table. \<not> is_stale (isoformat cutoff) w \<longrightarrow>
          w \<in> set (fst (cleanup_stale_workflows env now table)))
     \<and> (\<forall>w d. created_at w = Some (isoformat d) \<and> valid_datetime d \<longrightarrow>
          (is_stale (isoformat cutoff) w \<longleftrightarrow>
             item_status w = Some ''awaiting_approval'' \<and> earlier d cutoff))"
proof -
  let ?ts = "isoformat cutoff"
  let ?scanned = "filter (is_stale ?ts) (take (scan_page env) table)"
  have sub: "set ?scanned \<subseteq> set table" by (auto dest: in_set_takeD)
  have ids: "filter (\<lambda>w. workflow_id w \<notin> workflow_id ` set ?scanned) table
           = filter (\<lambda>w. w \<notin> set ?scanned) table"
    by (rule distinct_ids_filter [OF assms(1) sub])
  have exact: "fst (cleanup_stale_workflows env now table)
          = filter (\<lambda>w. \<not> (is_stale ?ts w \<and> w \<in> set (take (scan_page env) table))) table"
    if ok: "scan_raises env = None \<and> (\<forall>k. delete_raises env k = None)"
  proof -
    from ok have "fst (delete_loop env ?scanned table 0)
        = filter (\<lambda>w. workflow_id w \<notin> workflow_id ` set ?scanned) table"
      by (simp add: delete_loop_reliable del: set_filter)
    also have "\<dots> = filter (\<lambda>w. w \<notin> set ?scanned) table" by (rule ids)
    also have "\<dots> = filter (\<lambda>w. \<not> (is_stale ?ts w \<and> w \<in> set (take (scan_page env) table))) table"
      by (rule filter_cong) auto
    finally show ?thesis
      using ok assms(3) by (simp add: cleanup_stale_workflows_def Let_def split_beta)
  qed
  have whole: "fst (cleanup_stale_workflows env now table)
          = filter (\<lambda>w. \<not> is_stale ?ts w) table"
    if ok: "scan_raises env = None \<and> (\<forall>k. delete_raises env k = None) \<and>
        length table \<le> scan_page env"
  proof -
    from ok have "take (scan_page env) table = table" by simp
    with exact ok have "fst (cleanup_stale_workflows env now table)
          = filter (\<lambda>w. \<not> (is_stale ?ts w \<and> w \<in> set table)) table"
      by simp
    also have "\<dots> = filter (\<lambda>w. \<not> is_stale ?ts w) table"
      by (rule filter_cong) auto
    finally show ?thesis .
  qed
  have kept: "w \<in> set (fst (cleanup_stale_workflows env now table))"
    if w: "w \<in> set table" and ns: "\<not> is_stale ?ts w" for w
  proof -
    from w ns have "w \<in> set (filter (\<lambda>v. v \<notin> set ?scanned) table)" by simp
    then have "w \<in> set (filter (\<lambda>v. workflow_id v \<notin> workflow_id ` set ?scanned) table)"
      unfolding ids .
    then have id: "workflow_id w \<notin> workflow_id ` set ?scanned"
      by simp
    show ?thesis
    proof (cases "scan_raises env")
      case None
      with assms(3) delete_loop_keeps [OF w id, of env 0] show ?thesis
        by (simp add: cleanup_stale_workflows_def Let_def split_beta)
    next
      case (Some e)
      with assms(3) w show ?thesis
        by (simp add: cleanup_stale_workflows_def Let_def)
    qed
  qed
  have meaning: "is_stale ?ts w \<longleftrightarrow> item_status w = Some ''awaiting_approval'' \<and> earlier d cutoff"
    if c: "created_at w = Some (isoformat d) \<and> valid_datetime d" for w :: workflow_item and d
  proof -
    from assms(2,3) have "valid_datetime cutoff" by (rule minus_24h_valid)
    with c have "isoformat d < isoformat cutoff \<longleftrightarrow> earlier d cutoff"
      by (simp add: isoformat_less_iff)
    with c show ?thesis by (simp add: is_stale_def)
  qed
  from exact whole kept meaning show ?thesis by blast
qed

text \<open>
  C8 (the code at the failing input). Four items, all with status "awaiting_approval" and
  created more than a month before the sweep, in a table of which one scan call reads two
  items: the sweep deletes the first two and leaves the other two, which are as stale.
\<close>

theorem sweep_leaves_stale_items_beyond_first_page:
  "list_all (is_stale (isoformat (dt 2026 11 3 7 28 0 0))) four_stale
   \<and> list_all (\<lambda>w. item_status w = Some ''awaiting_approval'') four_stale
   \<and> earlier (dt 2026 10 3 9 0 0 0) (dt 2026 11 3 7 28 0 0)
   \<and> earlier (dt 2026 10 4 9 0 0 0) (dt 2026 11 3 7 28 0 0)
   \<and> minus_24h sweep_time = Inr (dt 2026 11 3 7 28 0 0)
   \<and> fst (cleanup_stale_workflows (reliable_store\<lparr>scan_page := 2\<rparr>) sweep_time four_stale)
       = [item ''workflow-c'' ''awaiting_approval'' (dt 2026 10 3 9 0 0 0),
          item ''workflow-d'' ''awaiting_approval'' (dt 2026 10 4 9 0 0 0)]
   \<and> deleted_workflows (snd (cleanup_stale_workflows (reliable_store\<lparr>scan_page := 2\<rparr>)
        sweep_time four_stale)) = 2"
proof -
  have d: "distinct (map workflow_id four_stale)"
    by (simp add: four_stale_def item_def)
  have v: "valid_datetime sweep_time"
    by (simp add: sweep_time_def dt_def valid_datetime_def)
  have m: "minus_24h sweep_time = Inr (dt 2026 11 3 7 28 0 0)"
    by (simp add: sweep_time_def dt_def minus_24h_def)
  note t = sweep_deletes_stale_items_of_first_page [OF d v m, of "reliable_store\<lparr>scan_page := 2\<rparr>"]
  have vd: "valid_datetime (dt 2026 10 1 9 0 0 0)" "valid_datetime (dt 2026 10 2 9 0 0 0)"
    "valid_datetime (dt 2026 10 3 9 0 0 0)" "valid_datetime (dt 2026 10 4 9 0 0 0)"
    by (simp_all add: dt_def valid_datetime_def)
  have e: "earlier (dt 2026 10 1 9 0 0 0) (dt 2026 11 3 7 28 0 0)"
    "earlier (dt 2026 10 2 9 0 0 0) (dt 2026 11 3 7 28 0 0)"
    "earlier (dt 2026 10 3 9 0 0 0) (dt 2026 11 3 7 28 0 0)"
    "earlier (dt 2026 10 4 9 0 0 0) (dt 2026 11 3 7 28 0 0)"
    by (simp_all add: earlier_def dt_def)
  have st: "is_stale (isoformat (dt 2026 11 3 7 28 0 0))
              (item ''workflow-a'' ''awaiting_approval'' (dt 2026 10 1 9 0 0 0))"
    "is_stale (isoformat (dt 2026 11 3 7 28 0 0))
              (item ''workflow-b'' ''awaiting_approval'' (dt 2026 10 2 9 0 0 0))"
    "is_stale (isoformat (dt 2026 11 3 7 28 0 0))
              (item ''workflow-c'' ''awaiting_approval'' (dt 2026 10 3 9 0 0 0))"
    "is_stale (isoformat (dt 2026 11 3 7 28 0 0))
              (item ''workflow-d'' ''awaiting_approval'' (dt 2026 10 4 9 0 0 0))"
    using t vd e by (simp_all add: item_def)
  have ids: "workflow_id (item k s x) = k" for k s x by (simp add: item_def)
  have run: "cleanup_stale_workflows (reliable_store\<lparr>scan_page := 2\<rparr>) sweep_time four_stale
      = ([item ''workflow-c'' ''awaiting_approval'' (dt 2026 10 3 9 0 0 0),
          item ''workflow-d'' ''awaiting_approval'' (dt 2026 10 4 9 0 0 0)],
         \<lparr>deleted_workflows = 2,
          cutoff_time = Some (isoformat (dt 2026 11 3 7 28 0 0)),
          reason = Some ''Stale awaiting_approval >24h'',
          cleanup_error = None\<rparr>)"
    using st
    by (simp add: cleanup_stale_workflows_def m reliable_store_def four_stale_def
        delete_item_def ids Let_def)
  from st e m run show ?thesis
    by (simp add: four_stale_def item_def)
qed


section \<open>Properties of the coverage checks\<close>

lemma coverage_loop_nil:
  "coverage_loop ops n article_text [] found missing_items = Inr (found, missing_items)"
  by simp

lemma check_factual_accuracy_raises:
  "extract_text_from_portable_text (portable_text_body art) = Inl e
   \<Longrightarrow> check_factual_accuracy ops art report = passed_on_error e"
  by (simp add: check_factual_accuracy_def bind_exn_def)

lemma check_research_alignment_raises:
  "extract_text_from_portable_text (portable_text_body art) = Inl e
   \<Longrightarrow> check_research_alignment ops art report = passed_on_error e"
  by (simp add: check_research_alignment_def bind_exn_def)

lemma check_factual_accuracy_passed:
  "\<exists>b. passed (check_factual_accuracy ops art report) = Some b"
  by (auto simp add: check_factual_accuracy_def bind_exn_def passed_on_error_def Let_def
      split_beta split: sum.splits)

lemma check_research_alignment_passed:
  "\<exists>b. passed (check_research_alignment ops art report) = Some b"
  by (auto simp add: check_research_alignment_def bind_exn_def passed_on_error_def Let_def
      split_beta split: sum.splits)

lemma verdict_of_five_checks:
  assumes "passed fa = Some fb" and "passed seo = Some sb" and "passed ra = Some rb"
    and "passed un = Some ub" and "passed qu = Some qb"
  shows "fst (make_decision
         [''factual_accuracy'' \<mapsto> fa, ''seo_compliance'' \<mapsto> seo, ''research_alignment'' \<mapsto> ra,
          ''uniqueness'' \<mapsto> un, ''quality'' \<mapsto> qu] q)
       = (if fb \<and> sb \<and> rb \<and> ub \<and> qb then ''APPROVED''
          else if \<not> fb \<or> \<not> rb then ''REJECTED''
          else fst (make_decision
         [''factual_accuracy'' \<mapsto> fa, ''seo_compliance'' \<mapsto> seo, ''research_alignment'' \<mapsto> ra,
          ''uniqueness'' \<mapsto> un, ''quality'' \<mapsto> qu] q))"
  using assms
  by (auto simp add: make_decision_def make_decision_body_def bind_exn_def index_check_def
      index_passed_def decide_def split_beta Let_def)

text \<open>
  C10 (counterexample). An article whose only text is a number, checked against a report
  with no key facts and no must-include items: the \<^verbatim>\<open>join\<close> of the extraction raises
  TypeError, the handler of each coverage check reports \<^verbatim>\<open>passed = True\<close>, neither check
  computes a rate, and with the SEO, uniqueness and quality checks passing the verdict is
  APPROVED with a score of 1.
\<close>

theorem empty_requirements_pass_when_extraction_raises:
  "key_facts empty_report = [] \<and> must_include empty_report = []
   \<and> extract_text_from_portable_text (portable_text_body numeric_body)
       = Inl (Exn ''TypeError'' ''sequence item: expected str instance'')
   \<and> passed (check_factual_accuracy ascii_ops numeric_body empty_report) = Some True
   \<and> accuracy_rate (check_factual_accuracy ascii_ops numeric_body empty_report) = None
   \<and> passed (check_research_alignment ascii_ops numeric_body empty_report) = Some True
   \<and> coverage (check_research_alignment ascii_ops numeric_body empty_report) = None
   \<and> validation_status (validate ascii_ops numeric_body empty_report
        (check_with True) (check_with True) (check_with True)) = ''APPROVED''
   \<and> quality_score (validate ascii_ops numeric_body empty_report
        (check_with True) (check_with True) (check_with True)) = 1"
proof -
  have ex: "extract_text_from_portable_text (portable_text_body numeric_body)
       = Inl (Exn ''TypeError'' ''sequence item: expected str instance'')"
    by (simp add: extract_text_from_portable_text_def numeric_body_def)
  have fa: "check_factual_accuracy ascii_ops numeric_body empty_report
      = passed_on_error (Exn ''TypeError'' ''sequence item: expected str instance'')"
    using ex by (rule check_factual_accuracy_raises)
  have ra: "check_research_alignment ascii_ops numeric_body empty_report
      = passed_on_error (Exn ''TypeError'' ''sequence item: expected str instance'')"
    using ex by (rule check_research_alignment_raises)
  have v: "validation_status (validate ascii_ops numeric_body empty_report
        (check_with True) (check_with True) (check_with True)) = ''APPROVED''"
    using verdict_of_five_checks [of
        "passed_on_error (Exn ''TypeError'' ''sequence item: expected str instance'')" True
        "check_with True" True
        "passed_on_error (Exn ''TypeError'' ''sequence item: expected str instance'')" True
        "check_with True" True "check_with True" True]
    by (simp add: validate_def fa ra Let_def split_beta passed_on_error_def check_with_def)
  have q: "quality_score (validate ascii_ops numeric_body empty_report
        (check_with True) (check_with True) (check_with True)) = 1"
    by (simp add: validate_def fa ra Let_def split_beta passed_on_error_def check_with_def
        calculate_quality_score_def weights_def get_passed_def)
  have e: "key_facts empty_report = [] \<and> must_include empty_report = []"
    by (simp add: empty_report_def)
  show ?thesis
    using e ex v q by (simp add: fa ra passed_on_error_def)
qed

text \<open>
  C10 (amended). For every article whose text can be extracted (every text that the
  extraction keeps is a string), and for Python's \<^verbatim>\<open>str.lower\<close> and \<^verbatim>\<open>str.split\<close> whatever they
  return: with no key facts the factual check computes a rate of 0 and fails, and with no
  must-include items the research-alignment check computes a coverage of 0 and fails; in
  either case the verdict is REJECTED, whatever the SEO, uniqueness and quality checks report
  (in particular when all three pass). For every article whose extraction raises, both
  coverage checks report that they passed, whatever the two lists hold, and the verdict is
  APPROVED when the other three checks pass.
\<close>

theorem empty_requirements_fail_when_text_extracts:
  "(\<not> isl (extract_text_from_portable_text (portable_text_body art)) \<longrightarrow>
      (key_facts report = [] \<longrightarrow>
         accuracy_rate (check_factual_accuracy ops art report) = Some 0
         \<and> passed (check_factual_accuracy ops art report) = Some False)
      \<and> (must_include report = [] \<longrightarrow>
         coverage (check_research_alignment ops art report) = Some 0
         \<and> passed (check_research_alignment ops art report) = Some False)
      \<and> ((key_facts report = [] \<or> must_include report = []) \<and>
         (\<exists>b. passed seo = Some b) \<and> (\<exists>b. passed un = Some b) \<and> (\<exists>b. passed qu = Some b) \<longrightarrow>
         validation_status (validate ops art report seo un qu) = ''REJECTED''))
   \<and> (isl (extract_text_from_portable_text (portable_text_body art)) \<longrightarrow>
      passed (check_factual_accuracy ops art report) = Some True
      \<and> passed (check_research_alignment ops art report) = Some True
      \<and> (passed seo = Some True \<and> passed un = Some True \<and> passed qu = Some True \<longrightarrow>
         validation_status (validate ops art report seo un qu) = ''APPROVED''))"
proof -
  let ?fa = "check_factual_accuracy ops art report"
  let ?ra = "check_research_alignment ops art report"
  let ?ex = "extract_text_from_portable_text (portable_text_body art)"
  have status: "validation_status (validate ops art report seo un qu)
      = fst (make_decision
         [''factual_accuracy'' \<mapsto> ?fa, ''seo_compliance'' \<mapsto> seo, ''research_alignment'' \<mapsto> ?ra,
          ''uniqueness'' \<mapsto> un, ''quality'' \<mapsto> qu]
         (calculate_quality_score
           [''factual_accuracy'' \<mapsto> ?fa, ''seo_compliance'' \<mapsto> seo, ''research_alignment'' \<mapsto> ?ra,
            ''uniqueness'' \<mapsto> un, ''quality'' \<mapsto> qu]))"
    by (simp add: validate_def Let_def split_beta)
  have fa: "accuracy_rate ?fa = Some 0 \<and> passed ?fa = Some False"
    if "\<not> isl ?ex" and "key_facts report = []"
  proof -
    from that(1) obtain article_text where "?ex = Inr article_text"
      by (cases ?ex) auto
    then show ?thesis
      using that(2) by (simp add: check_factual_accuracy_def bind_exn_def)
  qed
  have ra: "coverage ?ra = Some 0 \<and> passed ?ra = Some False"
    if "\<not> isl ?ex" and "must_include report = []"
  proof -
    from that(1) obtain article_text where "?ex = Inr article_text"
      by (cases ?ex) auto
    then show ?thesis
      using that(2) by (simp add: check_research_alignment_def bind_exn_def)
  qed
  have rej: "validation_status (validate ops art report seo un qu) = ''REJECTED''"
    if e: "\<not> isl ?ex"
      and a: "(key_facts report = [] \<or> must_include report = []) \<and>
      (\<exists>b. passed seo = Some b) \<and> (\<exists>b. passed un = Some b) \<and> (\<exists>b. passed qu = Some b)"
  proof -
    from a obtain sb ub qb
      where p: "passed seo = Some sb" "passed un = Some ub" "passed qu = Some qb"
      by blast
    obtain fb where f: "passed ?fa = Some fb"
      using check_factual_accuracy_passed by blast
    obtain rb where r: "passed ?ra = Some rb"
      using check_research_alignment_passed by blast
    from a e fa ra f r have "\<not> fb \<or> \<not> rb" by auto
    then show ?thesis
      using verdict_of_five_checks [OF f p(1) r p(2) p(3)] status by auto
  qed
  have err: "passed ?fa = Some True \<and> passed ?ra = Some True" if "isl ?ex"
  proof -
    from that obtain e where "?ex = Inl e"
      by (cases ?ex) auto
    then show ?thesis
      by (simp add: check_factual_accuracy_raises check_research_alignment_raises
          passed_on_error_def)
  qed
  have app: "validation_status (validate ops art report seo un qu) = ''APPROVED''"
    if e: "isl ?ex"
      and p: "passed seo = Some True \<and> passed un = Some True \<and> passed qu = Some True"
  proof -
    from err [OF e] p show ?thesis
      using verdict_of_five_checks [of ?fa True seo True ?ra True un True qu True] status
      by simp
  qed
  from fa ra rej err app show ?thesis by blast
qed

theorem empty_requirements_fail_when_text_extracts_witness:
  "\<not> isl (extract_text_from_portable_text (portable_text_body (body_of ''Tea grows in the hills.'')))
   \<and> accuracy_rate (check_factual_accuracy ascii_ops (body_of ''Tea grows in the hills.'')
             \<lparr>key_facts = [], must_include = []\<rparr>) = Some 0
   \<and> passed (check_factual_accuracy ascii_ops (body_of ''Tea grows in the hills.'')
             \<lparr>key_facts = [], must_include = []\<rparr>) = Some False
   \<and> coverage (check_research_alignment ascii_ops (body_of ''Tea grows in the hills.'')
             \<lparr>key_facts = [], must_include = []\<rparr>) = Some 0
   \<and> passed (check_research_alignment ascii_ops (body_of ''Tea grows in the hills.'')
             \<lparr>key_facts = [], must_include = []\<rparr>) = Some False
   \<and> validation_status (validate ascii_ops (body_of ''Tea grows in the hills.'')
        \<lparr>key_facts = [], must_include = []\<rparr>
        (check_with True) (check_with True) (check_with True)) = ''REJECTED''
   \<and> isl (extract_text_from_portable_text
        [Block (Some ''block'') [Child (Some (JOther True))]])
   \<and> passed (check_factual_accuracy ascii_ops
        \<lparr>article_title = None,
         portable_text_body = [Block (Some ''block'') [Child (Some (JOther True))]]\<rparr>
        \<lparr>key_facts = [], must_include = []\<rparr>) = Some True
   \<and> validation_status (validate ascii_ops
        \<lparr>article_title = None,
         portable_text_body = [Block (Some ''block'') [Child (Some (JOther True))]]\<rparr>
        \<lparr>key_facts = [], must_include = []\<rparr>
        (check_with True) (check_with True) (check_with True)) = ''APPROVED''"
proof -
  have a: "\<not> isl (extract_text_from_portable_text
      (portable_text_body (body_of ''Tea grows in the hills.'')))"
    by (simp add: extract_text_from_portable_text_def body_of_def)
  have b: "isl (extract_text_from_portable_text
      [Block (Some ''block'') [Child (Some (JOther True))]])"
    by (simp add: extract_text_from_portable_text_def)
  show ?thesis
    using a b
      empty_requirements_fail_when_text_extracts [of "body_of ''Tea grows in the hills.''"
        "\<lparr>key_facts = [], must_include = []\<rparr>" ascii_ops
        "check_with True" "check_with True" "check_with True"]
      empty_requirements_fail_when_text_extracts [of
        "\<lparr>article_title = None,
          portable_text_body = [Block (Some ''block'') [Child (Some (JOther True))]]\<rparr>"
        "\<lparr>key_facts = [], must_include = []\<rparr>" ascii_ops
        "check_with True" "check_with True" "check_with True"]
    by (auto simp add: check_with_def)
qed


section \<open>Properties of the orchestrator\<close>

lemma returns_settled_and_then:
  assumes "\<And>v. returns_settled (f v)"
  shows "returns_settled (and_then m f)"
  unfolding returns_settled_def
proof (intro allI impI)
  fix w r w'
  assume a: "and_then m f w = (Inr r, w')"
  obtain x w1 where m: "m w = (x, w1)" by (cases "m w")
  show "wf_status w' = Some (result_status r) \<and>
        (result_status r = state_value REJECTED \<or> result_status r = state_value EMAIL_SENT)"
  proof (cases x)
    case (Inl e)
    with a m show ?thesis by (simp add: and_then_def)
  next
    case (Inr v)
    with a m have "f v w1 = (Inr r, w')" by (simp add: and_then_def)
    with assms [of v] show ?thesis unfolding returns_settled_def by blast
  qed
qed

lemma returns_settled_after_validation:
  assumes "\<forall>k. update_raises env k = None"
  shows "returns_settled (after_validation env writer_res validation)"
proof (cases "validation_status validation = ''APPROVED'' \<or>
         validation_status validation = ''NEEDS_REVISION''")
  case True
  have tail: "returns_settled
      (and_then (update_workflow_status env EMAIL_SENT) (\<lambda>_.
        and_then (store_article_data env art) (\<lambda>_.
        and_then (index (article_title art) ''title'') (\<lambda>t.
          succeed
            \<lparr>result_status = state_value EMAIL_SENT,
             result_message = msg,
             result_validation = validation,
             result_preview_title = Some t\<rparr>))))" for art msg
    using assms
    by (auto simp: returns_settled_def and_then_def update_workflow_status_def
        store_article_data_def index_def succeed_def raise_def
        split: option.splits if_splits)
  from True show ?thesis
    unfolding after_validation_def
    by (simp only: if_True) (intro returns_settled_and_then tail)
next
  case False
  have "returns_settled
      (and_then (update_workflow_status env REJECTED) (\<lambda>_.
          succeed
            \<lparr>result_status = state_value REJECTED,
             result_message = ''Article rejected - quality issues found'',
             result_validation = validation,
             result_preview_title = None\<rparr>))"
    using assms
    by (auto simp: returns_settled_def and_then_def update_workflow_status_def succeed_def)
  with False show ?thesis
    unfolding after_validation_def by (simp only: if_False)
qed

lemma returns_settled_body:
  assumes "\<forall>k. update_raises env k = None"
  shows "returns_settled (execute_workflow_body env)"
  unfolding execute_workflow_body_def research_step_def writing_step_def checking_step_def
  by (intro returns_settled_and_then returns_settled_after_validation [OF assms])

lemma mark_failed_Inl:
  assumes "\<forall>k. update_raises env k = None"
    and "isl (fst (mark_failed_and_reraise env body w))"
  shows "wf_status (snd (mark_failed_and_reraise env body w)) = Some (state_value FAILED)"
  using assms
  by (auto simp: mark_failed_and_reraise_def update_workflow_status_def
      split: prod.splits sum.splits option.splits)

lemma mark_failed_Inr:
  assumes "returns_settled body"
    and "fst (mark_failed_and_reraise env body w) = Inr r"
  shows "wf_status (snd (mark_failed_and_reraise env body w)) = Some (result_status r) \<and>
        (result_status r = state_value REJECTED \<or> result_status r = state_value EMAIL_SENT)"
proof -
  obtain x w1 where b: "body w = (x, w1)" by (cases "body w")
  with assms(2) have "x = Inr r" and "snd (mark_failed_and_reraise env body w) = w1"
    by (auto simp: mark_failed_and_reraise_def split: sum.splits prod.splits)
  with b assms(1) show ?thesis unfolding returns_settled_def by auto
qed

lemma returns_settled_mark_failed:
  assumes "returns_settled body"
  shows "returns_settled (mark_failed_and_reraise env body)"
  unfolding returns_settled_def
proof (intro allI impI)
  fix w r w'
  assume a: "mark_failed_and_reraise env body w = (Inr r, w')"
  then have "fst (mark_failed_and_reraise env body w) = Inr r" by simp
  from mark_failed_Inr [OF assms this] a
  show "wf_status w' = Some (result_status r) \<and>
        (result_status r = state_value REJECTED \<or> result_status r = state_value EMAIL_SENT)"
    by simp
qed

lemmas manager_defs =
  execute_workflow_def mark_failed_and_reraise_def execute_workflow_body_def research_step_def
  writing_step_def checking_step_def after_validation_def and_then_def succeed_def raise_def
  index_def run_stage_def check_success_def update_workflow_status_def send_approval_email_def
  store_article_data_def start_workflow_def put_item_def

lemma approved_validation_status: "validation_status approved_validation = ''APPROVED''"
  by (simp add: approved_validation_def validate_def tea_report_def body_of_def check_with_def
      check_factual_accuracy_def check_research_alignment_def extract_text_from_portable_text_def
      ascii_ops_def mentioned_def split_def is_space_def lower_def lower_char_def
      make_decision_def make_decision_body_def bind_exn_def index_check_def index_passed_def
      decide_def factual_feedback_def seo_feedback_def uniqueness_feedback_def
      calculate_quality_score_def weights_def get_passed_def Let_def)

lemma rejected_validation_status: "validation_status rejected_validation = ''REJECTED''"
  by (simp add: rejected_validation_def validate_def tea_report_def body_of_def check_with_def
      check_factual_accuracy_def check_research_alignment_def extract_text_from_portable_text_def
      ascii_ops_def mentioned_def split_def is_space_def lower_def lower_char_def
      make_decision_def make_decision_body_def bind_exn_def index_check_def index_passed_def
      decide_def factual_feedback_def seo_feedback_def uniqueness_feedback_def
      calculate_quality_score_def weights_def get_passed_def Let_def)

text \<open>
  C1, as the code has it. When the store accepts every status update, then for every
  outcome of the four stages and of the email: if the execution raises, the persisted
  status is FAILED; if it returns, the persisted status is the status of the returned
  summary, which is REJECTED or EMAIL_SENT. So the record is never left in a stage state
  (from INITIALIZED to CHECKING, APPROVED, NEEDS_REVISION). The same holds for
  \<^verbatim>\<open>start_workflow\<close>, whether or not the record could be created.
\<close>

theorem workflow_ends_failed_rejected_or_email_sent:
  assumes "\<forall>k. update_raises env k = None"
  shows
    "(isl (fst (execute_workflow env w)) \<longrightarrow>
        wf_status (snd (execute_workflow env w)) = Some (state_value FAILED))
     \<and> (\<forall>r. fst (execute_workflow env w) = Inr r \<longrightarrow>
          wf_status (snd (execute_workflow env w)) = Some (result_status r) \<and>
          (result_status r = state_value REJECTED \<or> result_status r = state_value EMAIL_SENT))
     \<and> (isl (fst (start_workflow env w)) \<longrightarrow>
        wf_status (snd (start_workflow env w)) = Some (state_value FAILED))
     \<and> (\<forall>r. fst (start_workflow env w) = Inr r \<longrightarrow>
          wf_status (snd (start_workflow env w)) = Some (result_status r) \<and>
          (result_status r = state_value REJECTED \<or> result_status r = state_value EMAIL_SENT))"
proof -
  note body = returns_settled_body [OF assms]
  have exec: "returns_settled (execute_workflow env)"
    unfolding execute_workflow_def by (rule returns_settled_mark_failed [OF body])
  have start: "returns_settled (and_then (put_item env) (\<lambda>_. execute_workflow env))"
    by (rule returns_settled_and_then) (rule exec)
  show ?thesis
    unfolding execute_workflow_def start_workflow_def
    using mark_failed_Inl [OF assms] mark_failed_Inr [OF body] mark_failed_Inr [OF start]
    unfolding execute_workflow_def
    by blast
qed


theorem workflow_ends_failed_rejected_or_email_sent_witness:
  "isl (fst (execute_workflow research_fails_env initial_world))
   \<and> wf_status (snd (execute_workflow research_fails_env initial_world)) = Some ''failed''
   \<and> isl (fst (start_workflow writer_raises_env initial_world))
   \<and> wf_status (snd (start_workflow writer_raises_env initial_world)) = Some ''failed''"
proof -
  have r: "\<forall>k. update_raises research_fails_env k = None"
    by (simp add: research_fails_env_def workflow_env_def)
  have w: "\<forall>k. update_raises writer_raises_env k = None"
    by (simp add: writer_raises_env_def workflow_env_def)
  have e1: "isl (fst (execute_workflow research_fails_env initial_world))"
    by (simp add: manager_defs research_fails_env_def workflow_env_def initial_world_def)
  have e2: "isl (fst (start_workflow writer_raises_env initial_world))"
    by (simp add: manager_defs writer_raises_env_def workflow_env_def initial_world_def)
  from workflow_ends_failed_rejected_or_email_sent [OF r, of initial_world]
    workflow_ends_failed_rejected_or_email_sent [OF w, of initial_world] e1 e2
  show ?thesis by simp
qed

text \<open>
  C1, as stated, fails on a run in which every stage succeeds and the verdict is APPROVED:
  the execution returns with the persisted status EMAIL_SENT, which the state graph does not
  mark as terminal (PUBLISHED or DECLINED follow it, on the human's answer).
\<close>

theorem approved_run_ends_email_sent:
  "\<not> isl (fst (execute_workflow (workflow_env approved_validation) initial_world))
   \<and> wf_status (snd (execute_workflow (workflow_env approved_validation) initial_world))
       = Some (state_value EMAIL_SENT)
   \<and> state_value EMAIL_SENT \<notin> spec_terminal_states"
  by (simp add: manager_defs workflow_env_def initial_world_def body_of_def
      approved_validation_status spec_terminal_states_def)

text \<open>
  C9. When the stages before the gate return success with their payloads, the checker
  returns the verdict REJECTED and the store accepts the status updates,
  \<^verbatim>\<open>_execute_workflow\<close> returns a summary with status "rejected" that carries the verdict, the
  persisted status is "rejected" (which is not "failed"), and \<^verbatim>\<open>_send_approval_email\<close> was
  not called.
\<close>

theorem rejected_short_circuits:
  assumes "\<forall>k. update_raises env k = None"
    and "topic_stage env = Returns topic_res" and "topic_status topic_res = Some ''success''"
    and "topic_selected topic_res = Some t"
    and "research_stage env = Returns research_res"
    and "research_status research_res = Some ''success''"
    and "research_payload research_res = Some report"
    and "writer_stage env = Returns writer_res" and "writer_status writer_res = Some ''success''"
    and "writer_article writer_res = Some art" and "writer_metadata writer_res = Some md"
    and "word_count md = Some wc" and "images_sourced md = Some n"
    and "checker_stage env = Returns checker_res"
    and "checker_status checker_res = Some ''success''"
    and "checker_validation checker_res = Some v"
    and "validation_status v = ''REJECTED''"
  shows "fst (execute_workflow env w) = Inr
            \<lparr>result_status = state_value REJECTED,
             result_message = ''Article rejected - quality issues found'',
             result_validation = v,
             result_preview_title = None\<rparr>
     \<and> wf_status (snd (execute_workflow env w)) = Some (state_value REJECTED)
     \<and> state_value REJECTED \<noteq> state_value FAILED
     \<and> emails_attempted (snd (execute_workflow env w)) = emails_attempted w"
  using assms by (simp add: manager_defs)

theorem rejected_short_circuits_witness:
  "fst (execute_workflow (workflow_env rejected_validation) initial_world) = Inr
            \<lparr>result_status = ''rejected'',
             result_message = ''Article rejected - quality issues found'',
             result_validation = rejected_validation,
             result_preview_title = None\<rparr>
     \<and> wf_status (snd (execute_workflow (workflow_env rejected_validation) initial_world))
         = Some ''rejected''
     \<and> emails_attempted (snd (execute_workflow (workflow_env rejected_validation) initial_world)) = 0"
  using rejected_short_circuits [of "workflow_env rejected_validation"
      "\<lparr>topic_status = Some ''success'', topic_error = None, topic_selected = Some tea_topic\<rparr>"
      tea_topic
      "\<lparr>research_status = Some ''success'', research_error = None,
         research_payload = Some tea_report\<rparr>"
      tea_report
      "\<lparr>writer_status = Some ''success'', writer_error = None,
         writer_article = Some (body_of ''Tea grows in the hills.''),
         writer_images = Some [''https://images.example/tea.jpg''],
         writer_metadata = Some \<lparr>word_count = Some 2800, images_sourced = Some 3\<rparr>\<rparr>"
      "body_of ''Tea grows in the hills.''"
      "\<lparr>word_count = Some 2800, images_sourced = Some 3\<rparr>" 2800 3
      "\<lparr>checker_status = Some ''success'', checker_error = None,
        checker_validation = Some rejected_validation\<rparr>"
      rejected_validation initial_world]
    rejected_validation_status
  by (simp add: workflow_env_def initial_world_def)


end
